theory Spec2Isabelle
  imports Complex_Main "HOL-Library.Multiset"
begin

section \<open>Python values shared by both modules\<close>

text \<open>
  Both modules (\<^verbatim>\<open>base.py\<close>, the routing problem with orientations, and
  \<^verbatim>\<open>tsp.py\<close>, the closed tour) are embedded side by side; a definition taken
  from \<^verbatim>\<open>base.py\<close> carries the prefix \<open>base_\<close>, one from \<^verbatim>\<open>tsp.py\<close> the prefix
  \<open>tsp_\<close>, since the two files use the same class and method names.

  Python integers are \<open>int\<close>. A Python exception is a value of \<open>error\<close>. A query
  returns \<open>error + 'a\<close>; a method that mutates \<open>self\<close> returns an \<open>outcome\<close>, which
  in both cases carries the object as the call leaves it, because an exception
  raised in the middle of a method does not undo the assignments made before it.
\<close>

datatype error = IndexError | KeyError | ValueError | AssertionError

datatype 'a outcome = Returns 'a | Raises error 'a

text \<open>The object as a call leaves it, whether it returns or raises.\<close>

fun left_by :: "'a outcome \<Rightarrow> 'a" where
  "left_by (Returns s) = s"
| "left_by (Raises e s) = s"


definition ebind :: "error + 'a \<Rightarrow> ('a \<Rightarrow> error + 'b) \<Rightarrow> error + 'b" where
  "ebind m f = (case m of Inl e \<Rightarrow> Inl e | Inr a \<Rightarrow> f a)"

text \<open>
  \<^verbatim>\<open>xs[i]\<close> on a list, a tuple or an axis of an array: a negative index counts from
  the end, anything outside \<open>[-len, len)\<close> raises \<^verbatim>\<open>IndexError\<close>.
\<close>

definition py_index :: "nat \<Rightarrow> int \<Rightarrow> error + nat" where
  "py_index len k =
     (if 0 \<le> k \<and> k < int len then Inr (nat k)
      else if - int len \<le> k \<and> k < 0 then Inr (nat (k + int len))
      else Inl IndexError)"

definition getitem :: "'a list \<Rightarrow> int \<Rightarrow> error + 'a" where
  "getitem xs k = ebind (py_index (length xs) k) (\<lambda>m. Inr (xs ! m))"

definition getitem2 :: "'a list list \<Rightarrow> int \<Rightarrow> int \<Rightarrow> error + 'a" where
  "getitem2 t a b = ebind (getitem t a) (\<lambda>row. getitem row b)"

definition getitem3 :: "'a list list list \<Rightarrow> int \<Rightarrow> int \<Rightarrow> int \<Rightarrow> error + 'a" where
  "getitem3 t a b c = ebind (getitem t a) (\<lambda>plane. getitem2 plane b c)"

text \<open>
  \<^verbatim>\<open>xs[k] = w\<close>: the same index rule, the list is updated in place.
\<close>

definition setitem :: "'a list \<Rightarrow> int \<Rightarrow> 'a \<Rightarrow> error + 'a list" where
  "setitem xs k w = ebind (py_index (length xs) k) (\<lambda>m. Inr (xs[m := w]))"

text \<open>
  A slice bound is clamped, never an error: \<^verbatim>\<open>xs[a:b]\<close> with \<open>a\<close>, \<open>b\<close> brought
  into \<open>[0, len]\<close>.
\<close>

definition slice_bound :: "nat \<Rightarrow> int \<Rightarrow> nat" where
  "slice_bound len k =
     (if k < 0 then nat (max (k + int len) 0) else min (nat k) len)"

definition slice :: "'a list \<Rightarrow> int \<Rightarrow> int \<Rightarrow> 'a list" where
  "slice xs a b =
     (let lo = slice_bound (length xs) a; hi = slice_bound (length xs) b
      in take (hi - lo) (drop lo xs))"

text \<open>
  \<^verbatim>\<open>xs[a:b] = ys\<close>: the slice (empty when the upper bound is below the lower one)
  is replaced by \<open>ys\<close>.
\<close>

definition set_slice :: "'a list \<Rightarrow> int \<Rightarrow> int \<Rightarrow> 'a list \<Rightarrow> 'a list" where
  "set_slice xs a b ys =
     (let lo = slice_bound (length xs) a; hi = slice_bound (length xs) b
      in take lo xs @ ys @ drop (max lo hi) xs)"

text \<open>
  A Python \<^verbatim>\<open>set\<close> that the code iterates over is a list without duplicates, in
  iteration order; \<^verbatim>\<open>s.remove(v)\<close> raises \<^verbatim>\<open>KeyError\<close> when \<open>v\<close> is absent. A set
  that is only written to is an \<open>int set\<close>.
\<close>

definition set_remove :: "int list \<Rightarrow> int \<Rightarrow> error + int list" where
  "set_remove xs w = (if w \<in> set xs then Inr (remove1 w xs) else Inl KeyError)"

text \<open>\<^verbatim>\<open>range(a, b)\<close> as a list of Python integers.\<close>

definition py_range :: "int \<Rightarrow> int \<Rightarrow> int list" where
  "py_range a b = [a..b - 1]"

section \<open>The closed tour: \<^verbatim>\<open>tsp.py\<close>\<close>

text \<open>
  Floating-point numbers are read as real numbers. \<^verbatim>\<open>Problem.__init__\<close> derives
  the distance table from the coordinates.
\<close>

datatype Point = Point (x_coord: real) (y_coord: real)

definition euclidean_dist :: "Point \<Rightarrow> Point \<Rightarrow> real" where
  "euclidean_dist a b =
     (let dx = x_coord a - x_coord b; dy = y_coord a - y_coord b
      in sqrt (dx * dx + dy * dy))"

definition distance_matrix :: "Point list \<Rightarrow> real list list" where
  "distance_matrix cs = map (\<lambda>a. map (\<lambda>b. euclidean_dist a b) cs) cs"

record tsp_Problem =
  nnodes :: nat
  coords :: "Point list"
  dist_tab :: "real list list"

definition tsp_Problem_init :: "Point list \<Rightarrow> tsp_Problem" where
  "tsp_Problem_init cs =
     \<lparr>nnodes = length cs, coords = cs, dist_tab = distance_matrix cs\<rparr>"

text \<open>\<^verbatim>\<open>Component(u, v)\<close> and \<^verbatim>\<open>LocalMove(i, j)\<close> of \<^verbatim>\<open>tsp.py\<close>.\<close>

datatype tsp_Component = tsp_Component (comp_u: int) (comp_v: int)

datatype tsp_LocalMove = tsp_LocalMove (move_i: int) (move_j: int)

record tsp_Solution =
  tsp_problem :: tsp_Problem
  start :: int
  path :: "int list"
  used :: "int set"
  unused :: "int list"
  dist_acc :: real

definition tsp_empty_solution :: "tsp_Problem \<Rightarrow> tsp_Solution" where
  "tsp_empty_solution p =
     \<lparr>tsp_problem = p, start = 0, path = [0], used = {0},
      unused = py_range 1 (int (nnodes p)), dist_acc = 0\<rparr>"

definition tsp_empty_solution_with_start :: "tsp_Problem \<Rightarrow> int \<Rightarrow> tsp_Solution" where
  "tsp_empty_solution_with_start p st =
     \<lparr>tsp_problem = p, start = st, path = [st], used = {st},
      unused = removeAll st (py_range 0 (int (nnodes p))), dist_acc = 0\<rparr>"

definition tsp_copy :: "tsp_Solution \<Rightarrow> tsp_Solution" where
  "tsp_copy s =
     \<lparr>tsp_problem = tsp_problem s, start = start s, path = path s, used = used s,
      unused = unused s, dist_acc = dist_acc s\<rparr>"

definition tsp_is_feasible :: "tsp_Solution \<Rightarrow> bool" where
  "tsp_is_feasible s \<longleftrightarrow> length (path s) = nnodes (tsp_problem s) + 1"

definition tsp_objective :: "tsp_Solution \<Rightarrow> real option" where
  "tsp_objective s =
     (if length (path s) = nnodes (tsp_problem s) + 1 then Some (dist_acc s) else None)"

definition tsp_lower_bound :: "tsp_Solution \<Rightarrow> real option" where
  "tsp_lower_bound s = Some (dist_acc s)"

text \<open>
  \<^verbatim>\<open>add\<close>: the path is extended first, the removal from \<^verbatim>\<open>unused\<close> comes second and
  the distance lookup last, so each of the two possible exceptions finds the
  object already changed.
\<close>

definition tsp_add :: "tsp_Solution \<Rightarrow> tsp_Component \<Rightarrow> tsp_Solution outcome" where
  "tsp_add s c =
     (let u = comp_u c; v = comp_v c;
          s1 = s\<lparr>path := path s @ [v]\<rparr>
      in case (if v \<noteq> start s then set_remove (unused s) v else Inr (unused s)) of
           Inl e \<Rightarrow> Raises e s1
         | Inr un \<Rightarrow>
             (let s2 = s1\<lparr>unused := un, used := insert v (used s)\<rparr>
              in case getitem2 (dist_tab (tsp_problem s)) u v of
                   Inl e \<Rightarrow> Raises e s2
                 | Inr d \<Rightarrow> Returns (s2\<lparr>dist_acc := dist_acc s + d\<rparr>)))"

fun tsp_adds :: "tsp_Solution \<Rightarrow> tsp_Component list \<Rightarrow> tsp_Solution outcome" where
  "tsp_adds s [] = Returns s"
| "tsp_adds s (c # cs) =
     (case tsp_add s c of Raises e s' \<Rightarrow> Raises e s' | Returns s' \<Rightarrow> tsp_adds s' cs)"

text \<open>\<^verbatim>\<open>self.problem.dist[self.path[a]][self.path[b]]\<close>.\<close>

definition edge :: "tsp_Solution \<Rightarrow> int \<Rightarrow> int \<Rightarrow> error + real" where
  "edge s a b =
     ebind (getitem (path s) a) (\<lambda>pa.
     ebind (getitem (path s) b) (\<lambda>pb.
       getitem2 (dist_tab (tsp_problem s)) pa pb))"

definition tsp_objective_incr_local :: "tsp_Solution \<Rightarrow> tsp_LocalMove \<Rightarrow> error + real" where
  "tsp_objective_incr_local s m =
     (let i = move_i m; j = move_j m in
      ebind (edge s (i - 1) i) (\<lambda>d1.
      ebind (edge s (j - 1) j) (\<lambda>d2.
      ebind (edge s (i - 1) (j - 1)) (\<lambda>d3.
      ebind (edge s i j) (\<lambda>d4.
        Inr ((dist_acc s - d1 - d2 + d3 + d4) - dist_acc s))))))"

text \<open>
  Modelled from the spec: \<^verbatim>\<open>pairwise\<close> of \<^verbatim>\<open>api.utils\<close> is not among the sources;
  the debug check of \<^verbatim>\<open>step\<close> uses it to recompute "the sum of transition costs
  between consecutive sequence elements", so it yields the pairs of neighbours.
\<close>

fun pairwise :: "'a list \<Rightarrow> ('a \<times> 'a) list" where
  "pairwise (a # b # rest) = (a, b) # pairwise (b # rest)"
| "pairwise _ = []"

fun sum_dists :: "real list list \<Rightarrow> (int \<times> int) list \<Rightarrow> real \<Rightarrow> error + real" where
  "sum_dists t [] acc = Inr acc"
| "sum_dists t ((a, b) # rest) acc =
     ebind (getitem2 t a b) (\<lambda>d. sum_dists t rest (acc + d))"

text \<open>\<^verbatim>\<open>math.isclose\<close> with its defaults \<^verbatim>\<open>rel_tol=1e-09\<close>, \<^verbatim>\<open>abs_tol=0.0\<close>.\<close>

definition isclose :: "real \<Rightarrow> real \<Rightarrow> bool" where
  "isclose a b \<longleftrightarrow> \<bar>a - b\<bar> \<le> max (1 / 10 ^ 9 * max \<bar>a\<bar> \<bar>b\<bar>) 0"

text \<open>The block under \<^verbatim>\<open>if __debug__:\<close> in \<^verbatim>\<open>step\<close>; \<open>None\<close> when all three assertions pass.\<close>

definition step_debug :: "tsp_Solution \<Rightarrow> error option" where
  "step_debug s =
     (case sum_dists (dist_tab (tsp_problem s)) (pairwise (path s)) 0 of
        Inl e \<Rightarrow> Some e
      | Inr d \<Rightarrow>
          if \<not> isclose d (dist_acc s) then Some AssertionError
          else (case getitem (path s) 0 of
                  Inl e \<Rightarrow> Some e
                | Inr a \<Rightarrow>
                    if a \<noteq> start s then Some AssertionError
                    else (case getitem (path s) (- 1) of
                            Inl e \<Rightarrow> Some e
                          | Inr b \<Rightarrow> if b \<noteq> start s then Some AssertionError else None)))"

text \<open>
  \<^verbatim>\<open>step\<close>: every \<^verbatim>\<open>self.dist -= ...\<close> evaluates its right-hand side on the current
  path and then assigns, so a failing lookup leaves the assignments before it in
  place.
\<close>

definition tsp_step :: "tsp_Solution \<Rightarrow> tsp_LocalMove \<Rightarrow> tsp_Solution outcome" where
  "tsp_step s m =
     (let i = move_i m; j = move_j m in
      case edge s (i - 1) i of Inl e \<Rightarrow> Raises e s | Inr d1 \<Rightarrow>
      (let s1 = s\<lparr>dist_acc := dist_acc s - d1\<rparr> in
       case edge s1 (j - 1) j of Inl e \<Rightarrow> Raises e s1 | Inr d2 \<Rightarrow>
       (let s2 = s1\<lparr>dist_acc := dist_acc s1 - d2\<rparr>;
            s3 = s2\<lparr>path := set_slice (path s2) i j (rev (slice (path s2) i j))\<rparr> in
        case edge s3 (i - 1) i of Inl e \<Rightarrow> Raises e s3 | Inr d3 \<Rightarrow>
        (let s4 = s3\<lparr>dist_acc := dist_acc s3 + d3\<rparr> in
         case edge s4 (j - 1) j of Inl e \<Rightarrow> Raises e s4 | Inr d4 \<Rightarrow>
         (let s5 = s4\<lparr>dist_acc := dist_acc s4 + d4\<rparr> in
          case step_debug s5 of Some e \<Rightarrow> Raises e s5 | None \<Rightarrow> Returns s5)))))"

definition tsp_add_moves :: "tsp_Solution \<Rightarrow> error + tsp_Component list" where
  "tsp_add_moves s =
     (if length (path s) < nnodes (tsp_problem s) then
        ebind (getitem (path s) (- 1)) (\<lambda>u. Inr (map (\<lambda>v. tsp_Component u v) (unused s)))
      else if length (path s) = nnodes (tsp_problem s) then
        ebind (getitem (path s) (- 1)) (\<lambda>u. Inr [tsp_Component u (start s)])
      else Inr [])"

definition tsp_local_moves :: "tsp_Solution \<Rightarrow> tsp_LocalMove list" where
  "tsp_local_moves s =
     concat (map (\<lambda>i. map (\<lambda>j. tsp_LocalMove i j) (py_range (i + 2) (int (length (path s)))))
                 (py_range 1 (int (length (path s)))))"

text \<open>
  \<^verbatim>\<open>sample2\<close> of \<^verbatim>\<open>api.utils\<close> is not among the sources: the list of pairs that
  \<^verbatim>\<open>sample2(len(self.path), len(self.path))\<close> yields is an argument.
\<close>

text \<open>
  What the theorems ask of that argument: every pair of \<^verbatim>\<open>range(n)\<close> and
  \<^verbatim>\<open>range(m)\<close> occurs in it exactly once, in any order.
\<close>

definition covers_pairs :: "int \<Rightarrow> int \<Rightarrow> (int \<times> int) list \<Rightarrow> bool" where
  "covers_pairs n m ps \<longleftrightarrow> mset ps = mset (List.product (py_range 0 n) (py_range 0 m))"

definition tsp_random_local_moves_wor ::
    "tsp_Solution \<Rightarrow> (int \<times> int) list \<Rightarrow> tsp_LocalMove list" where
  "tsp_random_local_moves_wor s sample2 =
     map (\<lambda>(i, j). tsp_LocalMove i j) (filter (\<lambda>(i, j). i \<ge> 1 \<and> j \<ge> i + 2) sample2)"

fun nearest ::
    "real list list \<Rightarrow> int \<Rightarrow> int list \<Rightarrow> (tsp_Component \<times> real) option \<Rightarrow>
     error + (tsp_Component \<times> real) option" where
  "nearest t u [] best = Inr best"
| "nearest t u (v # vs) best =
     ebind (getitem2 t u v) (\<lambda>d.
       nearest t u vs
         (if (case best of None \<Rightarrow> True | Some (_, bestd) \<Rightarrow> d < bestd)
          then Some (tsp_Component u v, d) else best))"

definition tsp_heuristic_add_move :: "tsp_Solution \<Rightarrow> error + tsp_Component option" where
  "tsp_heuristic_add_move s =
     (if length (path s) < nnodes (tsp_problem s) then
        ebind (getitem (path s) (- 1)) (\<lambda>u.
        ebind (nearest (dist_tab (tsp_problem s)) u (unused s) None) (\<lambda>best.
          Inr (map_option fst best)))
      else if length (path s) = nnodes (tsp_problem s) then
        ebind (getitem (path s) (- 1)) (\<lambda>u. Inr (Some (tsp_Component u (start s))))
      else Inr None)"

text \<open>
  The states a driver can hold: the empty solutions, and whatever \<^verbatim>\<open>add\<close> and
  \<^verbatim>\<open>step\<close> return (a call that raises ends the run).
\<close>

inductive tsp_reachable :: "tsp_Problem \<Rightarrow> tsp_Solution \<Rightarrow> bool" for p where
  tsp_reach_empty: "tsp_reachable p (tsp_empty_solution p)"
| tsp_reach_start: "tsp_reachable p (tsp_empty_solution_with_start p st)"
| tsp_reach_add: "tsp_reachable p s \<Longrightarrow> tsp_add s c = Returns s' \<Longrightarrow> tsp_reachable p s'"
| tsp_reach_step: "tsp_reachable p s \<Longrightarrow> tsp_step s m = Returns s' \<Longrightarrow> tsp_reachable p s'"

subsection \<open>The unit square\<close>

definition square :: tsp_Problem where
  "square = tsp_Problem_init [Point 0 0, Point 0 1, Point 1 1, Point 1 0]"

definition square_tour :: tsp_Solution where
  "square_tour =
     \<lparr>tsp_problem = square, start = 0, path = [0, 1, 2, 3, 0], used = {0, 1, 2, 3},
      unused = [], dist_acc = 4\<rparr>"

text \<open>The solution after the first \<^verbatim>\<open>add\<close>, of the component \<open>(0, 1)\<close>.\<close>

definition square_first :: tsp_Solution where
  "square_first =
     \<lparr>tsp_problem = square, start = 0, path = [0, 1], used = {0, 1},
      unused = [2, 3], dist_acc = 1\<rparr>"

text \<open>
  What holds of every state a driver can hold: the bookkeeping of visited and
  unvisited points.
\<close>

definition tsp_inv :: "tsp_Problem \<Rightarrow> tsp_Solution \<Rightarrow> bool" where
  "tsp_inv p s \<longleftrightarrow>
     tsp_problem s = p \<and> start s \<in> used s \<and> distinct (unused s) \<and>
     used s \<inter> set (unused s) = {}"

section \<open>Routing with orientations: \<^verbatim>\<open>base.py\<close>\<close>

text \<open>
  \<^verbatim>\<open>Problem\<close>: the number \<^verbatim>\<open>n\<close> of containers (field \<open>pn\<close>) and the three cost
  arrays. \<^verbatim>\<open>from_textio\<close> fills the arrays with integers only, so a cost is an
  \<open>int\<close>; an array is the nested list of its rows.
\<close>

record base_Problem =
  pn :: nat
  depot_to_container :: "int list list"
  container_to_plant :: "int list list"
  container_to_container :: "int list list list"

text \<open>The shapes \<^verbatim>\<open>[2, n]\<close>, \<^verbatim>\<open>[2, n]\<close> and \<^verbatim>\<open>[4, n, n]\<close> that \<^verbatim>\<open>from_textio\<close> allocates.\<close>

definition well_shaped :: "base_Problem \<Rightarrow> bool" where
  "well_shaped p \<longleftrightarrow>
     length (depot_to_container p) = 2 \<and>
     list_all (\<lambda>row. length row = pn p) (depot_to_container p) \<and>
     length (container_to_plant p) = 2 \<and>
     list_all (\<lambda>row. length row = pn p) (container_to_plant p) \<and>
     length (container_to_container p) = 4 \<and>
     list_all (\<lambda>plane. length plane = pn p \<and> list_all (\<lambda>row. length row = pn p) plane)
       (container_to_container p)"

text \<open>
  \<^verbatim>\<open>Component(node, direction)\<close>. The class is annotated with two integers, and
  that is what \<^verbatim>\<open>add_moves\<close> yields and \<^verbatim>\<open>add\<close> stores; \<^verbatim>\<open>objective_incr_local\<close>
  builds components whose direction is \<^verbatim>\<open>None\<close>, and \<^verbatim>\<open>heuristic_add_move\<close> can
  return one whose two fields are \<^verbatim>\<open>None\<close>. The two field types are therefore
  parameters.
\<close>

datatype ('a, 'b) base_Component = base_Component (node: 'a) (direction: 'b)

datatype base_LocalMove =
  base_LocalMove (lmove_i: int) (lmove_j: int) (i_dir: int) (j_dir: int)

record base_Solution =
  problem :: base_Problem
  containers :: "int list"
  directions :: "int list"
  picked :: "int set"
  not_picked :: "int list"
  obj_value :: int

definition base_empty_solution :: "base_Problem \<Rightarrow> base_Solution" where
  "base_empty_solution p =
     \<lparr>problem = p, containers = [], directions = [], picked = {},
      not_picked = py_range 0 (int (pn p)), obj_value = 0\<rparr>"

definition base_copy :: "base_Solution \<Rightarrow> base_Solution" where
  "base_copy s =
     \<lparr>problem = problem s, containers = containers s, directions = directions s,
      picked = picked s, not_picked = not_picked s, obj_value = obj_value s\<rparr>"

definition base_is_feasible :: "base_Solution \<Rightarrow> bool" where
  "base_is_feasible s \<longleftrightarrow> \<not> (card (set (containers s)) \<noteq> pn (problem s))"

definition base_objective :: "base_Solution \<Rightarrow> error + int option" where
  "base_objective s =
     (if length (not_picked s) > 0 then Inr None
      else ebind (getitem (directions s) (- 1)) (\<lambda>d.
           ebind (getitem (containers s) (- 1)) (\<lambda>c.
           ebind (getitem2 (container_to_plant (problem s)) d c) (\<lambda>w.
             Inr (Some (obj_value s + w))))))"

subsection \<open>\<^verbatim>\<open>int(str(a) + str(b), 2)\<close>\<close>

definition digit_char :: "nat \<Rightarrow> char" where
  "digit_char d = ''0123456789'' ! d"

function str_nat :: "nat \<Rightarrow> string" where
  "str_nat k = (if k < 10 then [digit_char k] else str_nat (k div 10) @ [digit_char (k mod 10)])"
  by pat_completeness auto
termination
  by (relation "measure id") auto

text \<open>\<^verbatim>\<open>str\<close> of an integer or of \<^verbatim>\<open>None\<close>.\<close>

definition py_str :: "int option \<Rightarrow> string" where
  "py_str w =
     (case w of
        None \<Rightarrow> ''None''
      | Some k \<Rightarrow> if k < 0 then CHR ''-'' # str_nat (nat (- k)) else str_nat (nat k))"

fun bin_digits :: "string \<Rightarrow> nat \<Rightarrow> nat option" where
  "bin_digits [] acc = Some acc"
| "bin_digits (c # cs) acc =
     (if c = CHR ''0'' then bin_digits cs (2 * acc)
      else if c = CHR ''1'' then bin_digits cs (2 * acc + 1)
      else None)"

text \<open>
  \<^verbatim>\<open>int(s, 2)\<close> on the strings that \<^verbatim>\<open>str\<close> produces (decimal digits, a leading
  minus sign, the word \<^verbatim>\<open>None\<close>): an optional sign, then at least one binary
  digit and nothing else; \<^verbatim>\<open>ValueError\<close> otherwise.
\<close>

definition py_int2 :: "string \<Rightarrow> error + int" where
  "py_int2 s =
     (case s of
        [] \<Rightarrow> Inl ValueError
      | c # cs \<Rightarrow>
          if c = CHR ''-'' then
            (if cs = [] then Inl ValueError
             else case bin_digits cs 0 of None \<Rightarrow> Inl ValueError | Some k \<Rightarrow> Inr (- int k))
          else (case bin_digits (c # cs) 0 of None \<Rightarrow> Inl ValueError | Some k \<Rightarrow> Inr (int k)))"

definition dir_idx_of :: "int option \<Rightarrow> int option \<Rightarrow> error + int" where
  "dir_idx_of a b = py_int2 (py_str a @ py_str b)"

subsection \<open>Costs\<close>

text \<open>
  \<^verbatim>\<open>connection_cost\<close>. A direction that is \<^verbatim>\<open>None\<close> reaches an array index only
  if the caller pairs it with a node that is not one of the two sentinels \<open>-1\<close>
  and \<open>n\<close>; the sources never do, and the model reports \<^verbatim>\<open>IndexError\<close> there.
\<close>

definition index_opt :: "int option \<Rightarrow> (int \<Rightarrow> error + 'a) \<Rightarrow> error + 'a" where
  "index_opt k f = (case k of None \<Rightarrow> Inl IndexError | Some m \<Rightarrow> f m)"

definition connection_cost ::
    "base_Problem \<Rightarrow> (int, int option) base_Component \<Rightarrow> (int, int option) base_Component \<Rightarrow>
     error + int" where
  "connection_cost p last_component new_component =
     (if node last_component = - 1 then
        index_opt (direction new_component) (\<lambda>d.
          getitem2 (depot_to_container p) d (node new_component))
      else if node new_component = int (pn p) then
        index_opt (direction last_component) (\<lambda>d.
          getitem2 (container_to_plant p) d (node last_component))
      else
        ebind (dir_idx_of (direction last_component) (direction new_component)) (\<lambda>dir_idx.
          getitem3 (container_to_container p) dir_idx (node last_component) (node new_component)))"

text \<open>The first element that raises decides, as in a loop that appends one lookup at a time.\<close>

fun collect :: "(error + 'a) list \<Rightarrow> error + 'a list" where
  "collect [] = Inr []"
| "collect (r # rs) = ebind r (\<lambda>a. ebind (collect rs) (\<lambda>as. Inr (a # as)))"

text \<open>\<^verbatim>\<open>min\<close> and \<^verbatim>\<open>max\<close> of a sequence: \<^verbatim>\<open>ValueError\<close> on an empty one.\<close>

definition py_min :: "int list \<Rightarrow> error + int" where
  "py_min xs = (case xs of [] \<Rightarrow> Inl ValueError | a # as \<Rightarrow> Inr (fold min as a))"

definition py_max :: "int list \<Rightarrow> error + int" where
  "py_max xs = (case xs of [] \<Rightarrow> Inl ValueError | a # as \<Rightarrow> Inr (fold max as a))"

text \<open>The \<^verbatim>\<open>options\<close> list that \<^verbatim>\<open>get_minimal_connections\<close> builds for one \<^verbatim>\<open>dest_con\<close>.\<close>

definition incoming_options :: "base_Problem \<Rightarrow> int list \<Rightarrow> int \<Rightarrow> error + int list" where
  "incoming_options p cs dest_con =
     collect (concat (map (\<lambda>dep_con.
        concat (map (\<lambda>dir_idx.
          if dep_con \<noteq> dest_con
          then [getitem3 (container_to_container p) dir_idx dep_con dest_con] else [])
          (py_range 0 4))) cs))"

fun incoming_loop :: "base_Problem \<Rightarrow> int list \<Rightarrow> int list \<Rightarrow> int \<Rightarrow> error + int" where
  "incoming_loop p cs [] acc = Inr acc"
| "incoming_loop p cs (dest_con # rest) acc =
     ebind (incoming_options p cs dest_con) (\<lambda>options.
       if length options > 0
       then ebind (py_min options) (\<lambda>m. incoming_loop p cs rest (acc + m))
       else incoming_loop p cs rest acc)"

definition plant_options :: "base_Problem \<Rightarrow> int list \<Rightarrow> error + int list" where
  "plant_options p cs =
     collect (concat (map (\<lambda>dep_con.
        map (\<lambda>dir_idx. getitem2 (container_to_plant p) dir_idx dep_con) (py_range 0 2)) cs))"

definition get_minimal_connections :: "base_Problem \<Rightarrow> int list \<Rightarrow> error + int" where
  "get_minimal_connections p cs =
     ebind (incoming_loop p cs cs 0) (\<lambda>acc.
     ebind (plant_options p cs) (\<lambda>options.
     ebind (py_min options) (\<lambda>m. Inr (acc + m))))"

definition base_lower_bound :: "base_Solution \<Rightarrow> error + int option" where
  "base_lower_bound s =
     (if length (not_picked s) = 0 then Inr None
      else ebind (get_minimal_connections (problem s) (not_picked s)) (\<lambda>m.
             Inr (Some (obj_value s + m))))"

subsection \<open>Neighbourhoods\<close>

definition base_add_moves :: "base_Solution \<Rightarrow> (int, int) base_Component list" where
  "base_add_moves s =
     concat (map (\<lambda>container. map (\<lambda>d. base_Component container d) (py_range 0 2))
                 (not_picked s))"

text \<open>The \<^verbatim>\<open>if\<close>/\<^verbatim>\<open>elif\<close> chain on \<^verbatim>\<open>dir_idx\<close> shared by the two enumerations.\<close>

definition move_for :: "int \<Rightarrow> int \<Rightarrow> int \<Rightarrow> base_LocalMove" where
  "move_for idx_1 idx_2 dir_idx =
     (if dir_idx = 0 then base_LocalMove idx_1 idx_2 0 0
      else if dir_idx = 1 then base_LocalMove idx_1 idx_2 0 1
      else if dir_idx = 2 then base_LocalMove idx_1 idx_2 1 0
      else base_LocalMove idx_1 idx_2 1 1)"

definition base_local_moves :: "base_Solution \<Rightarrow> base_LocalMove list" where
  "base_local_moves s =
     concat (map (\<lambda>idx_1.
       concat (map (\<lambda>idx_2. map (move_for idx_1 idx_2) (py_range 0 4))
                   (py_range idx_1 (int (pn (problem s))))))
       (py_range 0 (int (pn (problem s)))))"

text \<open>
  \<^verbatim>\<open>random_local_moves_wor\<close>. \<^verbatim>\<open>random.shuffle\<close> is an argument: it takes the state
  of the generator and a list, and returns the shuffled list and the next state.
  The three loops thread that state in the order of the calls.
\<close>

text \<open>
  What the theorems ask of \<^verbatim>\<open>random.shuffle\<close>: whatever the state of the generator,
  the list it leaves is a rearrangement of the list it was given.
\<close>

definition rearranges :: "('g \<Rightarrow> int list \<Rightarrow> int list \<times> 'g) \<Rightarrow> bool" where
  "rearranges shuffle \<longleftrightarrow> (\<forall>g xs. mset (fst (shuffle g xs)) = mset xs)"

fun wor_dirs ::
    "('g \<Rightarrow> int list \<Rightarrow> int list \<times> 'g) \<Rightarrow> int \<Rightarrow> int list \<Rightarrow> 'g \<Rightarrow> base_LocalMove list \<times> 'g" where
  "wor_dirs shuffle idx_1 [] g = ([], g)"
| "wor_dirs shuffle idx_1 (idx_2 # rest) g =
     (let (range_dir, g1) = shuffle g (py_range 0 4);
          (ms, g2) = wor_dirs shuffle idx_1 rest g1
      in (map (move_for idx_1 idx_2) range_dir @ ms, g2))"

fun wor_rows ::
    "('g \<Rightarrow> int list \<Rightarrow> int list \<times> 'g) \<Rightarrow> nat \<Rightarrow> int list \<Rightarrow> 'g \<Rightarrow> base_LocalMove list \<times> 'g" where
  "wor_rows shuffle n [] g = ([], g)"
| "wor_rows shuffle n (idx_1 # rest) g =
     (let (range_2, g1) = shuffle g (py_range idx_1 (int n));
          (ms, g2) = wor_dirs shuffle idx_1 range_2 g1;
          (ms', g3) = wor_rows shuffle n rest g2
      in (ms @ ms', g3))"

definition base_random_local_moves_wor ::
    "('g \<Rightarrow> int list \<Rightarrow> int list \<times> 'g) \<Rightarrow> base_Solution \<Rightarrow> 'g \<Rightarrow> base_LocalMove list \<times> 'g" where
  "base_random_local_moves_wor shuffle s g =
     (let (range_1, g1) = shuffle g (py_range 0 (int (pn (problem s))))
      in wor_rows shuffle (pn (problem s)) range_1 g1)"

subsection \<open>\<^verbatim>\<open>heuristic_add_move\<close>\<close>

text \<open>
  \<^verbatim>\<open>candidates[0] + candidates[1]\<close> adds two rows of an array element by element;
  rows of one array have the same length, and rows of different lengths raise
  \<^verbatim>\<open>ValueError\<close>.
\<close>

definition row_add :: "int list \<Rightarrow> int list \<Rightarrow> error + int list" where
  "row_add r0 r1 =
     (if length r0 = length r1 then Inr (map2 (+) r0 r1) else Inl ValueError)"

text \<open>
  The dictionary \<^verbatim>\<open>best_candidate\<close> with its keys \<^verbatim>\<open>val\<close>, \<^verbatim>\<open>idx\<close> and
  \<^verbatim>\<open>direction\<close>.
\<close>

record best_candidate =
  val :: int
  idx :: "int option"
  dir :: "int option"

fun best_loop :: "int list \<Rightarrow> int list \<Rightarrow> int list \<Rightarrow> best_candidate \<Rightarrow> error + best_candidate" where
  "best_loop c0 c1 [] best = Inr best"
| "best_loop c0 c1 (k # rest) best =
     ebind (getitem c0 k) (\<lambda>w0.
       (let best1 = (if w0 < val best then \<lparr>val = w0, idx = Some k, dir = Some 0\<rparr> else best)
        in ebind (getitem c1 k) (\<lambda>w1.
             (let best2 = (if w1 < val best1 then \<lparr>val = w1, idx = Some k, dir = Some 1\<rparr>
                           else best1)
              in best_loop c0 c1 rest best2))))"

definition base_candidates :: "base_Solution \<Rightarrow> error + int list \<times> int list" where
  "base_candidates s =
     (if length (containers s) = 0 then
        ebind (getitem (depot_to_container (problem s)) 0) (\<lambda>c0.
        ebind (getitem (depot_to_container (problem s)) 1) (\<lambda>c1. Inr (c0, c1)))
      else
        ebind (getitem (directions s) (- 1)) (\<lambda>d.
        ebind (dir_idx_of (Some d) (Some 0)) (\<lambda>dir_idx_0.
        ebind (getitem (directions s) (- 1)) (\<lambda>d'.
        ebind (dir_idx_of (Some d') (Some 1)) (\<lambda>dir_idx_1.
        ebind (getitem (container_to_container (problem s)) dir_idx_0) (\<lambda>plane0.
        ebind (getitem (containers s) (- 1)) (\<lambda>c.
        ebind (getitem plane0 c) (\<lambda>c0.
        ebind (getitem (container_to_container (problem s)) dir_idx_1) (\<lambda>plane1.
        ebind (getitem (containers s) (- 1)) (\<lambda>c'.
        ebind (getitem plane1 c') (\<lambda>c1. Inr (c0, c1))))))))))))"

definition base_heuristic_add_move ::
    "base_Solution \<Rightarrow> error + (int option, int option) base_Component option" where
  "base_heuristic_add_move s =
     (if length (not_picked s) = 0 then Inr None
      else
        ebind (base_candidates s) (\<lambda>(c0, c1).
        ebind (row_add c0 c1) (\<lambda>both.
        ebind (py_max both) (\<lambda>top.
        ebind (best_loop c0 c1 (not_picked s) \<lparr>val = top, idx = None, dir = None\<rparr>) (\<lambda>best.
          Inr (Some (base_Component (idx best) (dir best))))))))"

subsection \<open>Mutation\<close>

definition with_dir :: "(int, int) base_Component \<Rightarrow> (int, int option) base_Component" where
  "with_dir c = base_Component (node c) (Some (direction c))"

text \<open>
  \<^verbatim>\<open>add\<close>: the cost lookup comes first; then the two lists and \<^verbatim>\<open>picked\<close> are
  extended, and \<^verbatim>\<open>not_picked.remove\<close> is the last statement, so its \<^verbatim>\<open>KeyError\<close>
  finds everything else already written.
\<close>

definition base_add_cost :: "base_Solution \<Rightarrow> (int, int) base_Component \<Rightarrow> error + int" where
  "base_add_cost s c =
     (if length (containers s) = 0 then
        getitem2 (depot_to_container (problem s)) (direction c) (node c)
      else
        ebind (getitem (containers s) (- 1)) (\<lambda>lc.
        ebind (getitem (directions s) (- 1)) (\<lambda>ld.
          connection_cost (problem s) (base_Component lc (Some ld)) (with_dir c))))"

definition base_add :: "base_Solution \<Rightarrow> (int, int) base_Component \<Rightarrow> base_Solution outcome" where
  "base_add s c =
     (case base_add_cost s c of
        Inl e \<Rightarrow> Raises e s
      | Inr w \<Rightarrow>
          (let s1 = s\<lparr>obj_value := obj_value s + w,
                      containers := containers s @ [node c],
                      directions := directions s @ [direction c],
                      picked := insert (node c) (picked s)\<rparr>
           in case set_remove (not_picked s) (node c) of
                Inl e \<Rightarrow> Raises e s1
              | Inr np \<Rightarrow> Returns (s1\<lparr>not_picked := np\<rparr>)))"

fun base_adds :: "base_Solution \<Rightarrow> (int, int) base_Component list \<Rightarrow> base_Solution outcome" where
  "base_adds s [] = Returns s"
| "base_adds s (c # cs) =
     (case base_add s c of Raises e s' \<Rightarrow> Raises e s' | Returns s' \<Rightarrow> base_adds s' cs)"

text \<open>\<^verbatim>\<open>step\<close>: five statements, each of which can raise \<^verbatim>\<open>IndexError\<close>.\<close>

definition base_step :: "base_Solution \<Rightarrow> base_LocalMove \<Rightarrow> base_Solution outcome" where
  "base_step s m =
     (case getitem (containers s) (lmove_i m) of Inl e \<Rightarrow> Raises e s | Inr tmp \<Rightarrow>
      (case ebind (getitem (containers s) (lmove_j m)) (setitem (containers s) (lmove_i m)) of
        Inl e \<Rightarrow> Raises e s
      | Inr cs1 \<Rightarrow>
      (let s1 = s\<lparr>containers := cs1\<rparr> in
       case setitem cs1 (lmove_j m) tmp of Inl e \<Rightarrow> Raises e s1 | Inr cs2 \<Rightarrow>
       (let s2 = s1\<lparr>containers := cs2\<rparr> in
        case setitem (directions s2) (lmove_i m) (i_dir m) of Inl e \<Rightarrow> Raises e s2 | Inr ds1 \<Rightarrow>
        (let s3 = s2\<lparr>directions := ds1\<rparr> in
         case setitem ds1 (lmove_j m) (j_dir m) of Inl e \<Rightarrow> Raises e s3 | Inr ds2 \<Rightarrow>
           Returns (s3\<lparr>directions := ds2\<rparr>))))))"

text \<open>
  \<^verbatim>\<open>objective_incr_local\<close>: the predecessor and successor of each of the two
  positions, with the sentinels \<open>-1\<close> (depot) and \<open>n\<close> (plant) and the direction
  \<^verbatim>\<open>None\<close> at the two ends.
\<close>

definition neighbour_before ::
    "base_Solution \<Rightarrow> int \<Rightarrow> error + (int, int option) base_Component" where
  "neighbour_before s k =
     ebind (if k > 0 then getitem (containers s) (k - 1) else Inr (- 1)) (\<lambda>pc.
     ebind (if k > 0 then ebind (getitem (directions s) (k - 1)) (\<lambda>d. Inr (Some d))
            else Inr None) (\<lambda>pd.
       Inr (base_Component pc pd)))"

definition neighbour_at ::
    "base_Solution \<Rightarrow> int \<Rightarrow> error + (int, int option) base_Component" where
  "neighbour_at s k =
     ebind (getitem (containers s) k) (\<lambda>cc.
     ebind (getitem (directions s) k) (\<lambda>cd.
       Inr (base_Component cc (Some cd))))"

definition neighbour_after ::
    "base_Solution \<Rightarrow> int \<Rightarrow> error + (int, int option) base_Component" where
  "neighbour_after s k =
     (let n = int (pn (problem s)) in
      ebind (if k < n - 1 then getitem (containers s) (k + 1) else Inr n) (\<lambda>fc.
      ebind (if k < n - 1 then ebind (getitem (directions s) (k + 1)) (\<lambda>d. Inr (Some d))
             else Inr None) (\<lambda>fd.
        Inr (base_Component fc fd))))"

definition base_objective_incr_local :: "base_Solution \<Rightarrow> base_LocalMove \<Rightarrow> error + int" where
  "base_objective_incr_local s m =
     (let p = problem s in
      ebind (neighbour_before s (lmove_i m)) (\<lambda>p1.
      ebind (neighbour_at s (lmove_i m)) (\<lambda>c1.
      ebind (neighbour_after s (lmove_i m)) (\<lambda>f1.
      ebind (neighbour_before s (lmove_j m)) (\<lambda>p2.
      ebind (neighbour_at s (lmove_j m)) (\<lambda>c2.
      ebind (neighbour_after s (lmove_j m)) (\<lambda>f2.
      ebind (connection_cost p p1 c1) (\<lambda>o1.
      ebind (connection_cost p c1 f1) (\<lambda>o2.
      ebind (connection_cost p p2 c2) (\<lambda>o3.
      ebind (connection_cost p c2 f2) (\<lambda>o4.
      (let obj_value_old = 0 + o1 + o2 + o3 + o4;
           c2' = base_Component (node c2) (Some (j_dir m));
           c1' = base_Component (node c1) (Some (i_dir m)) in
       ebind (connection_cost p p1 c2') (\<lambda>n1.
       ebind (connection_cost p c2' f1) (\<lambda>n2.
       ebind (connection_cost p p2 c1') (\<lambda>n3.
       ebind (connection_cost p c1' f2) (\<lambda>n4.
         Inr ((0 + n1 + n2 + n3 + n4) - obj_value_old)))))))))))))))))"

text \<open>
  The states a driver can hold: the empty solution, and whatever \<^verbatim>\<open>add\<close> and
  \<^verbatim>\<open>step\<close> return.
\<close>

inductive base_reachable :: "base_Problem \<Rightarrow> base_Solution \<Rightarrow> bool" for p where
  base_reach_empty: "base_reachable p (base_empty_solution p)"
| base_reach_add: "base_reachable p s \<Longrightarrow> base_add s c = Returns s' \<Longrightarrow> base_reachable p s'"
| base_reach_step: "base_reachable p s \<Longrightarrow> base_step s m = Returns s' \<Longrightarrow> base_reachable p s'"

text \<open>
  What holds of every state a driver can hold: the bookkeeping of visited and
  unvisited containers.
\<close>

definition base_inv :: "base_Problem \<Rightarrow> base_Solution \<Rightarrow> bool" where
  "base_inv p s \<longleftrightarrow>
     problem s = p \<and>
     length (containers s) + length (not_picked s) = pn p \<and>
     set (not_picked s) \<subseteq> {0..<int (pn p)} \<and>
     distinct (not_picked s) \<and>
     picked s \<inter> set (not_picked s) = {}"

subsection \<open>The cost of a sequence, recomputed\<close>

text \<open>
  Following the spec's words, not a function of the sources: "the sum of
  transition costs between consecutive sequence elements computed via the Cost
  Model", where the first element costs its entry from the depot. The exit to
  the plant is not part of it; \<^verbatim>\<open>objective\<close> adds it.
\<close>

fun transition_sum :: "base_Problem \<Rightarrow> (int \<times> int) list \<Rightarrow> error + int" where
  "transition_sum p ((a, da) # (b, db) # rest) =
     ebind (connection_cost p (base_Component a (Some da)) (base_Component b (Some db))) (\<lambda>w.
     ebind (transition_sum p ((b, db) # rest)) (\<lambda>r. Inr (w + r)))"
| "transition_sum p [x] = Inr 0"
| "transition_sum p [] = Inr 0"

definition recomputed_cost :: "base_Solution \<Rightarrow> error + int" where
  "recomputed_cost s =
     (case zip (containers s) (directions s) of
        [] \<Rightarrow> Inr 0
      | (a, da) # rest \<Rightarrow>
          ebind (getitem2 (depot_to_container (problem s)) da a) (\<lambda>w.
          ebind (transition_sum (problem s) ((a, da) # rest)) (\<lambda>r. Inr (w + r))))"

subsection \<open>Three containers\<close>

text \<open>
  An instance as \<^verbatim>\<open>from_textio\<close> reads it: three containers, costs that do not
  depend on the directions, and an expensive way from container 2 to container 1.
\<close>

definition routes3 :: base_Problem where
  "routes3 =
     \<lparr>pn = 3,
      depot_to_container = [[1, 2, 3], [1, 2, 3]],
      container_to_plant = [[1, 1, 1], [1, 1, 1]],
      container_to_container =
        [[[0, 1, 9], [2, 0, 1], [9, 50, 0]], [[0, 1, 9], [2, 0, 1], [9, 50, 0]],
         [[0, 1, 9], [2, 0, 1], [9, 50, 0]], [[0, 1, 9], [2, 0, 1], [9, 50, 0]]]\<rparr>"

definition routes3_first :: base_Solution where
  "routes3_first =
     \<lparr>problem = routes3, containers = [0], directions = [0], picked = {0},
      not_picked = [1, 2], obj_value = 1\<rparr>"

definition routes3_second :: base_Solution where
  "routes3_second =
     \<lparr>problem = routes3, containers = [0, 1], directions = [0, 0], picked = {0, 1},
      not_picked = [2], obj_value = 2\<rparr>"

definition routes3_tour :: base_Solution where
  "routes3_tour =
     \<lparr>problem = routes3, containers = [0, 1, 2], directions = [0, 0, 0], picked = {0, 1, 2},
      not_picked = [], obj_value = 3\<rparr>"

text \<open>Two containers that stand at the depot: every entry cost is 0.\<close>

definition depot_side :: base_Problem where
  "depot_side =
     \<lparr>pn = 2,
      depot_to_container = [[0, 0], [0, 0]],
      container_to_plant = [[3, 4], [3, 4]],
      container_to_container =
        [[[0, 5], [5, 0]], [[0, 5], [5, 0]], [[0, 5], [5, 0]], [[0, 5], [5, 0]]]\<rparr>"

section \<open>Solutions as objects in a store\<close>

text \<open>
  \<^verbatim>\<open>copy\<close> is about which objects two solutions share, so here a solution is an
  object in a store. A cell of the store holds a list, a set, a problem, or a
  solution object, whose fields are the addresses of its problem, of its lists
  and of its sets, and its number (\<^verbatim>\<open>obj_value\<close>, \<^verbatim>\<open>dist\<close>) and, for the closed
  tour, its start. Addresses are handed out in increasing order.
\<close>

type_synonym addr = nat

datatype cell =
    ListCell "int list"
  | SetCell "int set"
  | IterSetCell "int list"
  | ProblemCell base_Problem
  | SolutionCell addr addr addr addr addr int
  | TspProblemCell tsp_Problem
  | TspSolutionCell addr int addr addr addr real

record store =
  cells :: "addr \<Rightarrow> cell option"
  next_addr :: addr

text \<open>Nothing lives at an address that has not been handed out.\<close>

definition allocated :: "store \<Rightarrow> bool" where
  "allocated st \<longleftrightarrow> (\<forall>x. cells st x \<noteq> None \<longrightarrow> x < next_addr st)"

text \<open>The solution that the object at an address stands for, read through its references.\<close>

definition load_base :: "store \<Rightarrow> addr \<Rightarrow> base_Solution option" where
  "load_base st a =
     (case cells st a of
        Some (SolutionCell pr cr dr pk np ov) \<Rightarrow>
          (case (cells st pr, cells st cr, cells st dr, cells st pk, cells st np) of
             (Some (ProblemCell p), Some (ListCell cs), Some (ListCell ds),
              Some (SetCell ps), Some (IterSetCell ns)) \<Rightarrow>
               Some \<lparr>problem = p, containers = cs, directions = ds, picked = ps,
                     not_picked = ns, obj_value = ov\<rparr>
           | _ \<Rightarrow> None)
      | _ \<Rightarrow> None)"

text \<open>
  What a method leaves behind. \<^verbatim>\<open>add\<close> and \<^verbatim>\<open>step\<close> never rebind \<^verbatim>\<open>self.containers\<close>,
  \<^verbatim>\<open>self.directions\<close>, \<^verbatim>\<open>self.picked\<close> or \<^verbatim>\<open>self.not_picked\<close>: they call \<^verbatim>\<open>append\<close>,
  \<^verbatim>\<open>add\<close>, \<^verbatim>\<open>remove\<close> or assign to an index, which changes the list or set that the
  field refers to, and they assign \<^verbatim>\<open>self.obj_value\<close>, a field of the object
  itself. The problem is never written.
\<close>

definition write_base :: "store \<Rightarrow> addr \<Rightarrow> base_Solution \<Rightarrow> store" where
  "write_base st a s =
     (case cells st a of
        Some (SolutionCell pr cr dr pk np ov) \<Rightarrow>
          st\<lparr>cells := (cells st)
                (cr \<mapsto> ListCell (containers s), dr \<mapsto> ListCell (directions s),
                 pk \<mapsto> SetCell (picked s), np \<mapsto> IterSetCell (not_picked s),
                 a \<mapsto> SolutionCell pr cr dr pk np (obj_value s))\<rparr>
      | _ \<Rightarrow> st)"

text \<open>
  \<^verbatim>\<open>copy\<close>: \<^verbatim>\<open>copy(self.containers)\<close> and its three siblings make a new list or set
  with the same elements; \<^verbatim>\<open>self.problem\<close> and \<^verbatim>\<open>self.obj_value\<close> are passed on as
  they are; the constructor makes a new object.
\<close>

definition heap_base_copy :: "store \<Rightarrow> addr \<Rightarrow> (addr \<times> store) option" where
  "heap_base_copy st a =
     (case cells st a of
        Some (SolutionCell pr cr dr pk np ov) \<Rightarrow>
          (case (cells st cr, cells st dr, cells st pk, cells st np) of
             (Some c1, Some c2, Some c3, Some c4) \<Rightarrow>
               (let n = next_addr st in
                Some (n + 4,
                  st\<lparr>cells := (cells st)
                        (n \<mapsto> c1, n + 1 \<mapsto> c2, n + 2 \<mapsto> c3, n + 3 \<mapsto> c4,
                         n + 4 \<mapsto> SolutionCell pr n (n + 1) (n + 2) (n + 3) ov),
                      next_addr := n + 5\<rparr>))
           | _ \<Rightarrow> None)
      | _ \<Rightarrow> None)"

text \<open>A sequence of \<^verbatim>\<open>add\<close> and \<^verbatim>\<open>step\<close> calls on the object at one address.\<close>

datatype base_op = Add "(int, int) base_Component" | Step base_LocalMove

definition base_apply :: "base_op \<Rightarrow> base_Solution \<Rightarrow> base_Solution" where
  "base_apply op s = left_by (case op of Add c \<Rightarrow> base_add s c | Step m \<Rightarrow> base_step s m)"

definition heap_base_apply :: "addr \<Rightarrow> base_op \<Rightarrow> store \<Rightarrow> store" where
  "heap_base_apply b op st =
     (case load_base st b of None \<Rightarrow> st | Some s \<Rightarrow> write_base st b (base_apply op s))"

definition heap_base_run :: "store \<Rightarrow> addr \<Rightarrow> base_op list \<Rightarrow> store" where
  "heap_base_run st b ops = fold (heap_base_apply b) ops st"

definition base_run :: "base_Solution \<Rightarrow> base_op list \<Rightarrow> base_Solution" where
  "base_run s ops = fold base_apply ops s"

text \<open>The same for \<^verbatim>\<open>tsp.py\<close>, where \<^verbatim>\<open>step\<close> assigns to a slice of \<^verbatim>\<open>self.path\<close>.\<close>

definition load_tsp :: "store \<Rightarrow> addr \<Rightarrow> tsp_Solution option" where
  "load_tsp st a =
     (case cells st a of
        Some (TspSolutionCell pr st0 pa us un d) \<Rightarrow>
          (case (cells st pr, cells st pa, cells st us, cells st un) of
             (Some (TspProblemCell p), Some (ListCell ps), Some (SetCell vs),
              Some (IterSetCell ns)) \<Rightarrow>
               Some \<lparr>tsp_problem = p, start = st0, path = ps, used = vs, unused = ns,
                     dist_acc = d\<rparr>
           | _ \<Rightarrow> None)
      | _ \<Rightarrow> None)"

definition write_tsp :: "store \<Rightarrow> addr \<Rightarrow> tsp_Solution \<Rightarrow> store" where
  "write_tsp st a s =
     (case cells st a of
        Some (TspSolutionCell pr st0 pa us un d) \<Rightarrow>
          st\<lparr>cells := (cells st)
                (pa \<mapsto> ListCell (path s), us \<mapsto> SetCell (used s),
                 un \<mapsto> IterSetCell (unused s),
                 a \<mapsto> TspSolutionCell pr st0 pa us un (dist_acc s))\<rparr>
      | _ \<Rightarrow> st)"

definition heap_tsp_copy :: "store \<Rightarrow> addr \<Rightarrow> (addr \<times> store) option" where
  "heap_tsp_copy st a =
     (case cells st a of
        Some (TspSolutionCell pr st0 pa us un d) \<Rightarrow>
          (case (cells st pa, cells st us, cells st un) of
             (Some c1, Some c2, Some c3) \<Rightarrow>
               (let n = next_addr st in
                Some (n + 3,
                  st\<lparr>cells := (cells st)
                        (n \<mapsto> c1, n + 1 \<mapsto> c2, n + 2 \<mapsto> c3,
                         n + 3 \<mapsto> TspSolutionCell pr st0 n (n + 1) (n + 2) d),
                      next_addr := n + 4\<rparr>))
           | _ \<Rightarrow> None)
      | _ \<Rightarrow> None)"

datatype tsp_op = TspAdd tsp_Component | TspStep tsp_LocalMove

definition tsp_apply :: "tsp_op \<Rightarrow> tsp_Solution \<Rightarrow> tsp_Solution" where
  "tsp_apply op s = left_by (case op of TspAdd c \<Rightarrow> tsp_add s c | TspStep m \<Rightarrow> tsp_step s m)"

definition heap_tsp_apply :: "addr \<Rightarrow> tsp_op \<Rightarrow> store \<Rightarrow> store" where
  "heap_tsp_apply b op st =
     (case load_tsp st b of None \<Rightarrow> st | Some s \<Rightarrow> write_tsp st b (tsp_apply op s))"

definition heap_tsp_run :: "store \<Rightarrow> addr \<Rightarrow> tsp_op list \<Rightarrow> store" where
  "heap_tsp_run st b ops = fold (heap_tsp_apply b) ops st"

definition tsp_run :: "tsp_Solution \<Rightarrow> tsp_op list \<Rightarrow> tsp_Solution" where
  "tsp_run s ops = fold tsp_apply ops s"

text \<open>The address of the problem that a solution object refers to.\<close>

definition problem_ref :: "store \<Rightarrow> addr \<Rightarrow> addr option" where
  "problem_ref st a =
     (case cells st a of
        Some (SolutionCell pr cr dr pk np ov) \<Rightarrow> Some pr
      | Some (TspSolutionCell pr st0 pa us un d) \<Rightarrow> Some pr
      | _ \<Rightarrow> None)"

text \<open>
  The shape of a store while a copy at the addresses from \<open>n\<close> on is worked on:
  below \<open>n\<close> it is the store \<open>st0\<close> from before the copy, and the copy still
  refers to the cells it was given.
\<close>

definition fresh_base :: "store \<Rightarrow> addr \<Rightarrow> addr \<Rightarrow> store \<Rightarrow> bool" where
  "fresh_base st0 pr n st \<longleftrightarrow>
     (\<forall>x < n. cells st x = cells st0 x) \<and>
     (\<exists>ov. cells st (n + 4) = Some (SolutionCell pr n (n + 1) (n + 2) (n + 3) ov))"

definition fresh_tsp :: "store \<Rightarrow> addr \<Rightarrow> int \<Rightarrow> addr \<Rightarrow> store \<Rightarrow> bool" where
  "fresh_tsp st0 pr s0 n st \<longleftrightarrow>
     (\<forall>x < n. cells st x = cells st0 x) \<and>
     (\<exists>d. cells st (n + 3) = Some (TspSolutionCell pr s0 n (n + 1) (n + 2) d))"

text \<open>
  A store with the partial solution \<open>routes3_first\<close> at address 5 and the partial
  tour \<open>square_first\<close> at address 10.
\<close>

definition demo_store :: store where
  "demo_store =
     \<lparr>cells = [0 \<mapsto> ProblemCell routes3, 1 \<mapsto> ListCell [0], 2 \<mapsto> ListCell [0],
               3 \<mapsto> SetCell {0}, 4 \<mapsto> IterSetCell [1, 2], 5 \<mapsto> SolutionCell 0 1 2 3 4 1,
               6 \<mapsto> TspProblemCell square, 7 \<mapsto> ListCell [0, 1], 8 \<mapsto> SetCell {0, 1},
               9 \<mapsto> IterSetCell [2, 3], 10 \<mapsto> TspSolutionCell 6 0 7 8 9 1],
      next_addr = 11\<rparr>"

section \<open>Results\<close>

lemma upto_eval:
  "[0..1] = [0, 1]" "[0..2] = [0, 1, 2]" "[0..3] = [0, 1, 2, 3]" "[1..3] = [1, 2, 3]"
  by (simp_all add: upto_rec1)

lemma square_dist_tab:
  "dist_tab square =
     [[0, 1, sqrt 2, 1], [1, 0, 1, sqrt 2], [sqrt 2, 1, 0, 1], [1, sqrt 2, 1, 0]]"
  by (simp add: square_def tsp_Problem_init_def distance_matrix_def euclidean_dist_def)

lemma square_nnodes: "nnodes square = 4"
  by (simp add: square_def tsp_Problem_init_def)

lemma square_adds:
  "tsp_adds (tsp_empty_solution square)
     [tsp_Component 0 1, tsp_Component 1 2, tsp_Component 2 3, tsp_Component 3 0]
   = Returns square_tour"
  by (simp add: tsp_empty_solution_def tsp_add_def square_dist_tab square_nnodes
      set_remove_def py_range_def upto_eval getitem2_def getitem_def py_index_def ebind_def
      square_tour_def insert_commute)

lemma square_incr:
  "tsp_objective_incr_local square_tour (tsp_LocalMove 1 3) = Inr (2 * sqrt 2 - 2)"
  by (simp add: tsp_objective_incr_local_def edge_def square_tour_def square_dist_tab
      getitem2_def getitem_def py_index_def ebind_def)

text \<open>
  C5 as stated: on the tour \<open>0, 1, 2, 3, 0\<close> round the unit square, built by the four
  \<^verbatim>\<open>add\<close> calls, \<^verbatim>\<open>objective_incr_local(LocalMove(1, 3))\<close> would return 0. It does
  not: the claimed value is refuted at this very input.
\<close>

theorem C5_counterexample:
  "tsp_adds (tsp_empty_solution square)
     [tsp_Component 0 1, tsp_Component 1 2, tsp_Component 2 3, tsp_Component 3 0]
   = Returns square_tour \<and>
   tsp_objective_incr_local square_tour (tsp_LocalMove 1 3) \<noteq> Inr 0"
proof -
  have "sqrt 2 \<noteq> 1" by simp
  then have "2 * sqrt 2 - 2 \<noteq> (0::real)" by simp
  then have "tsp_objective_incr_local square_tour (tsp_LocalMove 1 3) \<noteq> Inr 0"
    by (simp add: square_incr)
  with square_adds show ?thesis by (rule conjI)
qed

text \<open>
  C5, amended: starting from \<^verbatim>\<open>empty_solution()\<close> of the unit square, the calls
  \<^verbatim>\<open>add\<close> of \<open>(0,1)\<close>, \<open>(1,2)\<close>, \<open>(2,3)\<close>, \<open>(3,0)\<close> all return and leave the tour
  \<open>0, 1, 2, 3, 0\<close>, whose objective is 4 and which is feasible; on that tour
  \<^verbatim>\<open>objective_incr_local(LocalMove(1, 3))\<close> returns \<open>2 * sqrt 2 - 2\<close>, the two
  diagonals that the reversal of positions 1 and 2 puts in place of two sides,
  and this is exactly the change of the objective when \<^verbatim>\<open>step\<close> applies the move.
\<close>

theorem C5_square_tour:
  "tsp_adds (tsp_empty_solution square)
     [tsp_Component 0 1, tsp_Component 1 2, tsp_Component 2 3, tsp_Component 3 0]
   = Returns square_tour \<and>
   tsp_objective square_tour = Some 4 \<and>
   tsp_is_feasible square_tour \<and>
   tsp_objective_incr_local square_tour (tsp_LocalMove 1 3) = Inr (2 * sqrt 2 - 2) \<and>
   tsp_step square_tour (tsp_LocalMove 1 3)
     = Returns (square_tour\<lparr>path := [0, 2, 1, 3, 0], dist_acc := 2 + 2 * sqrt 2\<rparr>)"
proof -
  have obj: "tsp_objective square_tour = Some 4"
    by (simp add: tsp_objective_def square_tour_def square_nnodes)
  have feas: "tsp_is_feasible square_tour"
    by (simp add: tsp_is_feasible_def square_tour_def square_nnodes)
  have st: "tsp_step square_tour (tsp_LocalMove 1 3)
     = Returns (square_tour\<lparr>path := [0, 2, 1, 3, 0], dist_acc := 2 + 2 * sqrt 2\<rparr>)"
    by (simp add: tsp_step_def edge_def square_tour_def square_dist_tab step_debug_def
        isclose_def set_slice_def slice_def slice_bound_def
        getitem2_def getitem_def py_index_def ebind_def)
  from square_adds obj feas square_incr st show ?thesis by (intro conjI)
qed

subsection \<open>Evaluation on three containers\<close>

lemma dir_idx_of_bits:
  "dir_idx_of (Some 0) (Some 0) = Inr 0"
  "dir_idx_of (Some 0) (Some 1) = Inr 1"
  "dir_idx_of (Some 1) (Some 0) = Inr 2"
  "dir_idx_of (Some 1) (Some 1) = Inr 3"
  by (simp_all add: dir_idx_of_def py_str_def py_int2_def digit_char_def)

lemmas eval_defs =
  getitem3_def getitem2_def getitem_def setitem_def py_index_def ebind_def
  set_remove_def py_range_def upto_eval

lemma routes3_add1:
  "base_add (base_empty_solution routes3) (base_Component 0 0) = Returns routes3_first"
  by (simp add: base_add_def base_add_cost_def base_empty_solution_def routes3_def
      routes3_first_def eval_defs)

lemma routes3_add2:
  "base_add routes3_first (base_Component 1 0) = Returns routes3_second"
  by (simp add: base_add_def base_add_cost_def connection_cost_def with_dir_def
      dir_idx_of_bits routes3_def routes3_first_def routes3_second_def eval_defs insert_commute)

lemma routes3_add3:
  "base_add routes3_second (base_Component 2 0) = Returns routes3_tour"
  by (simp add: base_add_def base_add_cost_def connection_cost_def with_dir_def
      dir_idx_of_bits routes3_def routes3_tour_def routes3_second_def eval_defs insert_commute)

lemma routes3_adds:
  "base_adds (base_empty_solution routes3)
     [base_Component 0 0, base_Component 1 0, base_Component 2 0] = Returns routes3_tour"
  by (simp add: routes3_add1 routes3_add2 routes3_add3)

lemma routes3_complete:
  "base_adds routes3_first [base_Component 1 0, base_Component 2 0] = Returns routes3_tour"
  by (simp add: routes3_add2 routes3_add3)

lemma routes3_lb: "base_lower_bound routes3_first = Inr (Some 53)"
  by (simp add: base_lower_bound_def get_minimal_connections_def incoming_options_def
      plant_options_def py_min_def routes3_def routes3_first_def eval_defs)

lemma routes3_obj: "base_objective routes3_tour = Inr (Some 4)"
  by (simp add: base_objective_def routes3_def routes3_tour_def eval_defs)

lemma routes3_feasible: "base_is_feasible routes3_tour"
  by (simp add: base_is_feasible_def routes3_def routes3_tour_def)

lemma routes3_incr:
  "base_objective_incr_local routes3_tour (base_LocalMove 0 2 0 0) = Inr 52"
  by (simp add: base_objective_incr_local_def neighbour_before_def neighbour_at_def
      neighbour_after_def connection_cost_def index_opt_def
      dir_idx_of_bits routes3_def routes3_tour_def eval_defs)

lemma routes3_step:
  "base_step routes3_tour (base_LocalMove 0 2 0 0)
     = Returns (routes3_tour\<lparr>containers := [2, 1, 0]\<rparr>)"
  by (simp add: base_step_def routes3_tour_def eval_defs)

lemma routes3_obj_after:
  "base_objective (routes3_tour\<lparr>containers := [2, 1, 0]\<rparr>) = Inr (Some 4)"
  by (simp add: base_objective_def routes3_def routes3_tour_def eval_defs)

lemma routes3_recomputed: "recomputed_cost routes3_tour = Inr 3"
  by (simp add: recomputed_cost_def connection_cost_def dir_idx_of_bits
      routes3_def routes3_tour_def eval_defs)

lemma routes3_recomputed_after:
  "recomputed_cost (routes3_tour\<lparr>containers := [2, 1, 0]\<rparr>) = Inr 55"
  by (simp add: recomputed_cost_def connection_cost_def dir_idx_of_bits
      routes3_def routes3_tour_def eval_defs)

lemma base_copy_same: "base_copy s = s"
  by (simp add: base_copy_def)

lemma tsp_copy_same: "tsp_copy s = s"
  by (simp add: tsp_copy_def)

text \<open>
  C1 at a failing input. On the complete solution \<open>0, 1, 2\<close> of \<open>routes3\<close> (objective
  4) \<^verbatim>\<open>objective_incr_local\<close> reports 52 for the move that swaps positions 0 and
  2, and 52 is what the swapped sequence costs more; but \<^verbatim>\<open>step\<close> on a copy leaves
  \<^verbatim>\<open>obj_value\<close> as it was, and \<^verbatim>\<open>objective\<close> of the result is still 4.
\<close>

theorem C1_increment_differs:
  "base_adds (base_empty_solution routes3)
     [base_Component 0 0, base_Component 1 0, base_Component 2 0] = Returns routes3_tour \<and>
   base_LocalMove 0 2 0 0 \<in> set (base_local_moves routes3_tour) \<and>
   base_objective routes3_tour = Inr (Some 4) \<and>
   base_objective_incr_local routes3_tour (base_LocalMove 0 2 0 0) = Inr 52 \<and>
   base_step (base_copy routes3_tour) (base_LocalMove 0 2 0 0)
     = Returns (routes3_tour\<lparr>containers := [2, 1, 0]\<rparr>) \<and>
   base_objective (routes3_tour\<lparr>containers := [2, 1, 0]\<rparr>) = Inr (Some 4)"
proof -
  have "base_LocalMove 0 2 0 0 \<in> set (base_local_moves routes3_tour)"
    by (simp add: base_local_moves_def move_for_def routes3_tour_def routes3_def
        py_range_def upto_eval)
  with routes3_adds routes3_obj routes3_incr routes3_step routes3_obj_after
  show ?thesis by (simp only: base_copy_same simp_thms)
qed

text \<open>
  C2 at a failing input. On the same solution the stored \<^verbatim>\<open>obj_value\<close> is 3, the
  sum of the entry cost and the two transitions; after \<^verbatim>\<open>step\<close> has swapped
  positions 0 and 2 the sequence \<open>2, 1, 0\<close> costs 55, and \<^verbatim>\<open>obj_value\<close> is still 3.
\<close>

theorem C2_obj_value_stale:
  "recomputed_cost routes3_tour = Inr 3 \<and> obj_value routes3_tour = 3 \<and>
   base_step routes3_tour (base_LocalMove 0 2 0 0)
     = Returns (routes3_tour\<lparr>containers := [2, 1, 0]\<rparr>) \<and>
   recomputed_cost (routes3_tour\<lparr>containers := [2, 1, 0]\<rparr>) = Inr 55 \<and>
   obj_value (routes3_tour\<lparr>containers := [2, 1, 0]\<rparr>) = 3"
proof -
  have "obj_value routes3_tour = 3"
    by (simp add: routes3_tour_def)
  moreover have "obj_value (routes3_tour\<lparr>containers := [2, 1, 0]\<rparr>) = 3"
    by (simp add: routes3_tour_def)
  ultimately show ?thesis
    using routes3_recomputed routes3_step routes3_recomputed_after by (intro conjI)
qed

text \<open>
  C3 at a failing input. After \<^verbatim>\<open>add\<close> of container 0 on \<open>routes3\<close> the solution is
  partial and \<^verbatim>\<open>lower_bound\<close> returns 53; adding containers 1 and 2 completes it
  to a feasible solution of objective 4.
\<close>

theorem C3_bound_exceeds_completion:
  "base_add (base_empty_solution routes3) (base_Component 0 0) = Returns routes3_first \<and>
   base_lower_bound routes3_first = Inr (Some 53) \<and>
   base_adds routes3_first [base_Component 1 0, base_Component 2 0] = Returns routes3_tour \<and>
   base_is_feasible routes3_tour \<and>
   base_objective routes3_tour = Inr (Some 4)"
  using routes3_add1 routes3_lb routes3_complete routes3_feasible routes3_obj
  by (intro conjI)

text \<open>
  C9 at a failing input. On \<open>depot_side\<close> both containers are unvisited and every
  candidate costs 0, which is not below the starting value of \<^verbatim>\<open>best_candidate\<close>
  (the largest sum of two entry costs, 0 as well): \<^verbatim>\<open>heuristic_add_move\<close>
  returns \<^verbatim>\<open>Component(None, None)\<close>, which is none of the four components that
  \<^verbatim>\<open>add_moves\<close> yields.
\<close>

theorem C9_no_candidate_chosen:
  "not_picked (base_empty_solution depot_side) = [0, 1] \<and>
   base_add_moves (base_empty_solution depot_side)
     = [base_Component 0 0, base_Component 0 1, base_Component 1 0, base_Component 1 1] \<and>
   base_heuristic_add_move (base_empty_solution depot_side)
     = Inr (Some (base_Component None None))"
  by (simp add: base_heuristic_add_move_def base_candidates_def row_add_def py_max_def
      base_add_moves_def base_empty_solution_def depot_side_def eval_defs)

subsection \<open>Bookkeeping of the orientation variant\<close>

lemma base_add_Returns:
  assumes "base_add s c = Returns s'"
  shows "\<exists>w. base_add_cost s c = Inr w \<and> node c \<in> set (not_picked s) \<and>
     s' = s\<lparr>obj_value := obj_value s + w, containers := containers s @ [node c],
            directions := directions s @ [direction c],
            picked := insert (node c) (picked s),
            not_picked := remove1 (node c) (not_picked s)\<rparr>"
  using assms
  by (auto simp: base_add_def set_remove_def Let_def split: sum.splits if_splits)

lemma base_step_frame:
  assumes "left_by (base_step s m) = s'"
  shows "problem s' = problem s \<and> not_picked s' = not_picked s \<and> picked s' = picked s \<and>
     obj_value s' = obj_value s \<and> length (containers s') = length (containers s) \<and>
     length (directions s') = length (directions s)"
  using assms
  by (auto simp: base_step_def setitem_def getitem_def ebind_def Let_def split: sum.splits)

lemma base_inv_empty: "base_inv p (base_empty_solution p)"
  by (auto simp: base_inv_def base_empty_solution_def py_range_def)

lemma base_inv_add:
  assumes "base_inv p s" and "base_add s c = Returns s'"
  shows "base_inv p s'"
proof -
  from base_add_Returns [OF assms(2)] obtain w where
    mem: "node c \<in> set (not_picked s)" and
    s': "s' = s\<lparr>obj_value := obj_value s + w, containers := containers s @ [node c],
            directions := directions s @ [direction c],
            picked := insert (node c) (picked s),
            not_picked := remove1 (node c) (not_picked s)\<rparr>"
    by blast
  from mem have "length (not_picked s) > 0" by (cases "not_picked s") auto
  with mem have len: "Suc (length (remove1 (node c) (not_picked s))) = length (not_picked s)"
    by (simp add: length_remove1)
  from assms(1) have d: "distinct (not_picked s)" by (simp add: base_inv_def)
  from assms(1) have "length (containers s) + length (not_picked s) = pn p"
    by (simp add: base_inv_def)
  with len have total:
    "length (containers s @ [node c]) + length (remove1 (node c) (not_picked s)) = pn p"
    by simp
  from assms(1) d have rest:
    "problem s = p" "set (remove1 (node c) (not_picked s)) \<subseteq> {0..<int (pn p)}"
    "distinct (remove1 (node c) (not_picked s))"
    "insert (node c) (picked s) \<inter> set (remove1 (node c) (not_picked s)) = {}"
    by (auto simp: base_inv_def dest: notin_set_remove1)
  show ?thesis
    unfolding base_inv_def s' using total rest by simp
qed

lemma base_inv_step:
  assumes "base_inv p s" and "base_step s m = Returns s'"
  shows "base_inv p s'"
proof -
  from assms(2) have "left_by (base_step s m) = s'" by simp
  from base_step_frame [OF this] assms(1) show ?thesis by (simp add: base_inv_def)
qed

lemma base_reachable_inv: "base_reachable p s \<Longrightarrow> base_inv p s"
  by (induction rule: base_reachable.induct)
     (auto intro: base_inv_empty base_inv_add base_inv_step)


lemma getitem_in_range:
  "0 \<le> k \<Longrightarrow> k < int (length xs) \<Longrightarrow> getitem xs k = Inr (xs ! nat k)"
  by (simp add: getitem_def py_index_def ebind_def)

lemma plant_lookup:
  assumes "well_shaped p" "d \<in> {0, 1}" "0 \<le> a" "a < int (pn p)"
  shows "\<exists>w. getitem2 (container_to_plant p) d a = Inr w"
proof -
  from assms(1) have len: "length (container_to_plant p) = 2"
    and rows: "\<forall>k < 2. length (container_to_plant p ! k) = pn p"
    by (auto simp: well_shaped_def list_all_length)
  from assms(2) len have "getitem (container_to_plant p) d = Inr (container_to_plant p ! nat d)"
    by (auto simp: getitem_in_range)
  moreover from assms(2) rows have "length (container_to_plant p ! nat d) = pn p" by auto
  ultimately show ?thesis using assms(3,4)
    by (simp add: getitem2_def ebind_def getitem_in_range)
qed

lemma pair_lookup:
  assumes "well_shaped p" "d \<in> {0, 1, 2, 3}" "0 \<le> a" "a < int (pn p)" "0 \<le> b" "b < int (pn p)"
  shows "\<exists>w. getitem3 (container_to_container p) d a b = Inr w"
proof -
  let ?t = "container_to_container p"
  from assms(1) have len: "length ?t = 4"
    and planes: "\<forall>k < 4. length (?t ! k) = pn p \<and> (\<forall>r < pn p. length (?t ! k ! r) = pn p)"
    by (auto simp: well_shaped_def list_all_length)
  from assms(2) len have g: "getitem ?t d = Inr (?t ! nat d)"
    by (auto simp: getitem_in_range)
  from assms(2) have "nat d < 4" by auto
  with planes have pl: "length (?t ! nat d) = pn p"
    and rw: "\<forall>r < pn p. length (?t ! nat d ! r) = pn p" by auto
  from assms(3,4) have "nat a < pn p" by simp
  with rw have "length (?t ! nat d ! nat a) = pn p" by simp
  with g pl assms(3-6) show ?thesis
    by (simp add: getitem3_def getitem2_def ebind_def getitem_in_range)
qed

lemma collect_all_Inr:
  "\<forall>r \<in> set rs. \<exists>a. r = Inr a \<Longrightarrow> \<exists>as. collect rs = Inr as \<and> length as = length rs"
proof (induction rs)
  case Nil
  then show ?case by simp
next
  case (Cons r rs)
  then obtain a where "r = Inr a" by auto
  moreover from Cons obtain as where "collect rs = Inr as" "length as = length rs" by auto
  ultimately show ?case by (simp add: ebind_def)
qed

lemma py_min_nonempty: "xs \<noteq> [] \<Longrightarrow> \<exists>m. py_min xs = Inr m"
  by (cases xs) (simp_all add: py_min_def)

lemma incoming_options_ok:
  assumes "well_shaped p" "set cs \<subseteq> {0..<int (pn p)}" "0 \<le> dest" "dest < int (pn p)"
  shows "\<exists>os. incoming_options p cs dest = Inr os"
proof -
  have "\<forall>r \<in> set (concat (map (\<lambda>dep_con.
        concat (map (\<lambda>dir_idx.
          if dep_con \<noteq> dest
          then [getitem3 (container_to_container p) dir_idx dep_con dest] else [])
          (py_range 0 4))) cs)). \<exists>a. r = Inr a"
  proof
    fix r assume "r \<in> set (concat (map (\<lambda>dep_con.
        concat (map (\<lambda>dir_idx.
          if dep_con \<noteq> dest
          then [getitem3 (container_to_container p) dir_idx dep_con dest] else [])
          (py_range 0 4))) cs))"
    then obtain dep d where "dep \<in> set cs" "d \<in> set (py_range 0 4)"
      "r = getitem3 (container_to_container p) d dep dest"
      by (auto split: if_splits)
    moreover from \<open>d \<in> set (py_range 0 4)\<close> have "d \<in> {0, 1, 2, 3}"
      by (auto simp: py_range_def)
    ultimately show "\<exists>a. r = Inr a"
      using pair_lookup [OF assms(1), of d dep dest] assms(2-4) by auto
  qed
  from collect_all_Inr [OF this] show ?thesis by (auto simp: incoming_options_def)
qed

lemma incoming_loop_ok:
  assumes "well_shaped p" "set cs \<subseteq> {0..<int (pn p)}"
  shows "set ds \<subseteq> {0..<int (pn p)} \<Longrightarrow> \<exists>r. incoming_loop p cs ds acc = Inr r"
proof (induction ds arbitrary: acc)
  case Nil
  then show ?case by simp
next
  case (Cons d ds)
  then have "0 \<le> d" "d < int (pn p)" by auto
  from incoming_options_ok [OF assms this] obtain os where os: "incoming_options p cs d = Inr os"
    by blast
  from Cons have IH: "\<And>acc. \<exists>r. incoming_loop p cs ds acc = Inr r" by simp
  show ?case
  proof (cases "os = []")
    case True
    with os IH show ?thesis by (simp add: ebind_def)
  next
    case False
    from py_min_nonempty [OF this] obtain m where "py_min os = Inr m" by blast
    with os False IH show ?thesis by (simp add: ebind_def)
  qed
qed

lemma plant_options_ok:
  assumes "well_shaped p" "set cs \<subseteq> {0..<int (pn p)}" "cs \<noteq> []"
  shows "\<exists>os. plant_options p cs = Inr os \<and> os \<noteq> []"
proof -
  let ?rs = "concat (map (\<lambda>dep_con.
        map (\<lambda>dir_idx. getitem2 (container_to_plant p) dir_idx dep_con) (py_range 0 2)) cs)"
  have "\<forall>r \<in> set ?rs. \<exists>a. r = Inr a"
  proof
    fix r assume "r \<in> set ?rs"
    then obtain dep d where "dep \<in> set cs" "d \<in> set (py_range 0 2)"
      "r = getitem2 (container_to_plant p) d dep" by auto
    moreover from \<open>d \<in> set (py_range 0 2)\<close> have "d \<in> {0, 1}"
      by (auto simp: py_range_def)
    ultimately show "\<exists>a. r = Inr a"
      using plant_lookup [OF assms(1), of d dep] assms(2) by auto
  qed
  from collect_all_Inr [OF this] obtain os where
    os: "collect ?rs = Inr os" "length os = length ?rs" by blast
  from assms(3) have "?rs \<noteq> []" by (cases cs) (auto simp: py_range_def)
  with os show ?thesis by (auto simp: plant_options_def)
qed

lemma get_minimal_connections_ok:
  assumes "well_shaped p" "set cs \<subseteq> {0..<int (pn p)}" "cs \<noteq> []"
  shows "\<exists>m. get_minimal_connections p cs = Inr m"
proof -
  from incoming_loop_ok [OF assms(1,2) assms(2)] obtain acc where
    "incoming_loop p cs cs 0 = Inr acc" by blast
  moreover from plant_options_ok [OF assms] obtain os where
    "plant_options p cs = Inr os" "os \<noteq> []" by blast
  moreover from py_min_nonempty [OF \<open>os \<noteq> []\<close>] obtain m where "py_min os = Inr m" by blast
  ultimately show ?thesis by (simp add: get_minimal_connections_def ebind_def)
qed

text \<open>
  C4, amended. In \<^verbatim>\<open>base.py\<close>, on every state a driver can hold of a well-shaped
  problem, \<^verbatim>\<open>lower_bound\<close> returns \<^verbatim>\<open>None\<close> when the solution is complete (\<open>n\<close>
  containers in the sequence) and otherwise returns, without raising,
  \<^verbatim>\<open>obj_value\<close> plus the estimate of \<^verbatim>\<open>get_minimal_connections\<close> over the
  unvisited containers. In \<^verbatim>\<open>tsp.py\<close>, \<^verbatim>\<open>lower_bound\<close> returns the accumulated
  \<^verbatim>\<open>dist\<close> on every solution, complete or not, and never \<^verbatim>\<open>None\<close>.
\<close>

theorem C4_lower_bound_defined:
  assumes "well_shaped p" and "base_reachable p s"
  shows "(length (containers s) = pn p \<longrightarrow> base_lower_bound s = Inr None) \<and>
         (length (containers s) \<noteq> pn p \<longrightarrow>
            (\<exists>m. get_minimal_connections p (not_picked s) = Inr m \<and>
                 base_lower_bound s = Inr (Some (obj_value s + m)))) \<and>
         tsp_lower_bound t = Some (dist_acc t)"
proof -
  from base_reachable_inv [OF assms(2)] have
    pr: "problem s = p" and
    len: "length (containers s) + length (not_picked s) = pn p" and
    sub: "set (not_picked s) \<subseteq> {0..<int (pn p)}"
    by (simp_all add: base_inv_def)
  have a: "length (containers s) = pn p \<longrightarrow> base_lower_bound s = Inr None"
  proof
    assume "length (containers s) = pn p"
    with len have "not_picked s = []" by simp
    then show "base_lower_bound s = Inr None" by (simp add: base_lower_bound_def)
  qed
  have b: "length (containers s) \<noteq> pn p \<longrightarrow>
            (\<exists>m. get_minimal_connections p (not_picked s) = Inr m \<and>
                 base_lower_bound s = Inr (Some (obj_value s + m)))"
  proof
    assume "length (containers s) \<noteq> pn p"
    with len have ne: "not_picked s \<noteq> []" by auto
    from get_minimal_connections_ok [OF assms(1) sub ne] obtain m where
      "get_minimal_connections p (not_picked s) = Inr m" by blast
    with ne pr show "\<exists>m. get_minimal_connections p (not_picked s) = Inr m \<and>
                 base_lower_bound s = Inr (Some (obj_value s + m))"
      by (simp add: base_lower_bound_def ebind_def)
  qed
  from a b show ?thesis by (simp add: tsp_lower_bound_def)
qed

lemma well_shaped_routes3: "well_shaped routes3"
  by (simp add: well_shaped_def routes3_def)

lemma base_reachable_adds:
  "base_reachable p s \<Longrightarrow> base_adds s cs = Returns s' \<Longrightarrow> base_reachable p s'"
proof (induction cs arbitrary: s)
  case Nil
  then show ?case by simp
next
  case (Cons c cs)
  then show ?case
    by (cases "base_add s c") (auto intro: base_reach_add)
qed

lemma tsp_reachable_adds:
  "tsp_reachable p s \<Longrightarrow> tsp_adds s cs = Returns s' \<Longrightarrow> tsp_reachable p s'"
proof (induction cs arbitrary: s)
  case Nil
  then show ?case by simp
next
  case (Cons c cs)
  then show ?case
    by (cases "tsp_add s c") (auto intro: tsp_reach_add)
qed

lemma routes3_first_reachable: "base_reachable routes3 routes3_first"
  using base_reach_add [OF base_reach_empty routes3_add1] .

lemma routes3_second_reachable: "base_reachable routes3 routes3_second"
  using base_reach_add [OF routes3_first_reachable routes3_add2] .

lemma routes3_tour_reachable: "base_reachable routes3 routes3_tour"
  using base_reach_add [OF routes3_second_reachable routes3_add3] .

lemma square_tour_reachable: "tsp_reachable square square_tour"
  using tsp_reachable_adds [OF tsp_reach_empty square_adds] .

theorem C4_lower_bound_defined_witness:
  "well_shaped routes3 \<and> base_reachable routes3 routes3_first \<and>
   length (containers routes3_first) \<noteq> pn routes3 \<and>
   (\<exists>m. get_minimal_connections routes3 (not_picked routes3_first) = Inr m \<and>
        base_lower_bound routes3_first = Inr (Some (obj_value routes3_first + m))) \<and>
   base_reachable routes3 routes3_tour \<and>
   length (containers routes3_tour) = pn routes3 \<and>
   base_lower_bound routes3_tour = Inr None \<and>
   tsp_lower_bound square_tour = Some (dist_acc square_tour)"
proof -
  have partial: "length (containers routes3_first) \<noteq> pn routes3"
    by (simp add: routes3_first_def routes3_def)
  have complete: "length (containers routes3_tour) = pn routes3"
    by (simp add: routes3_tour_def routes3_def)
  from C4_lower_bound_defined [OF well_shaped_routes3 routes3_first_reachable, of square_tour]
    C4_lower_bound_defined [OF well_shaped_routes3 routes3_tour_reachable, of square_tour]
    partial complete well_shaped_routes3 routes3_first_reachable routes3_tour_reachable
  show ?thesis by blast
qed

text \<open>
  C4 as stated fails on the closed tour: the tour round the unit square is
  complete, and \<^verbatim>\<open>lower_bound\<close> returns a value, not \<^verbatim>\<open>None\<close>.
\<close>

theorem C4_counterexample:
  "tsp_reachable square square_tour \<and> tsp_is_feasible square_tour \<and>
   tsp_objective square_tour = Some 4 \<and> tsp_lower_bound square_tour \<noteq> None"
  using square_tour_reachable
  by (simp add: tsp_is_feasible_def tsp_objective_def tsp_lower_bound_def
      square_tour_def square_nnodes)

subsection \<open>The two enumerations of local moves\<close>

lemma mset_concat_map:
  "mset (concat (map f xs)) = (\<Sum>x\<in>#mset xs. mset (f x))"
  by (induction xs) simp_all

lemma mset_concat_map_cong:
  "mset xs = mset ys \<Longrightarrow> mset (concat (map f xs)) = mset (concat (map f ys))"
  by (simp add: mset_concat_map)

lemma wor_dirs_mset:
  assumes "rearranges shuffle"
  shows "mset (fst (wor_dirs shuffle idx_1 range_2 g))
     = mset (concat (map (\<lambda>idx_2. map (move_for idx_1 idx_2) (py_range 0 4)) range_2))"
proof (induction range_2 arbitrary: g)
  case Nil
  then show ?case by simp
next
  case (Cons idx_2 rest)
  obtain range_dir g1 where sh: "shuffle g (py_range 0 4) = (range_dir, g1)"
    by (cases "shuffle g (py_range 0 4)")
  obtain ms g2 where rec: "wor_dirs shuffle idx_1 rest g1 = (ms, g2)"
    by (cases "wor_dirs shuffle idx_1 rest g1")
  from assms sh have "mset range_dir = mset (py_range 0 4)"
    by (metis rearranges_def fst_conv)
  then have "mset (map (move_for idx_1 idx_2) range_dir)
     = mset (map (move_for idx_1 idx_2) (py_range 0 4))"
    by (metis mset_map)
  moreover from Cons.IH [of g1] rec have
    "mset ms = mset (concat (map (\<lambda>idx_2. map (move_for idx_1 idx_2) (py_range 0 4)) rest))"
    by simp
  ultimately show ?case using sh rec by simp
qed

lemma wor_rows_mset:
  assumes "rearranges shuffle"
  shows "mset (fst (wor_rows shuffle n range_1 g))
     = mset (concat (map (\<lambda>idx_1.
         concat (map (\<lambda>idx_2. map (move_for idx_1 idx_2) (py_range 0 4))
                     (py_range idx_1 (int n)))) range_1))"
proof (induction range_1 arbitrary: g)
  case Nil
  then show ?case by simp
next
  case (Cons idx_1 rest)
  obtain range_2 g1 where sh: "shuffle g (py_range idx_1 (int n)) = (range_2, g1)"
    by (cases "shuffle g (py_range idx_1 (int n))")
  obtain ms g2 where ds: "wor_dirs shuffle idx_1 range_2 g1 = (ms, g2)"
    by (cases "wor_dirs shuffle idx_1 range_2 g1")
  obtain ms' g3 where rec: "wor_rows shuffle n rest g2 = (ms', g3)"
    by (cases "wor_rows shuffle n rest g2")
  from assms sh
  have "mset range_2 = mset (py_range idx_1 (int n))"
    by (metis rearranges_def fst_conv)
  from mset_concat_map_cong [OF this] wor_dirs_mset [OF assms, of idx_1 range_2 g1] ds
  have "mset ms = mset (concat (map (\<lambda>idx_2. map (move_for idx_1 idx_2) (py_range 0 4))
                     (py_range idx_1 (int n))))"
    by simp
  moreover from Cons.IH [of g2] rec have
    "mset ms' = mset (concat (map (\<lambda>idx_1.
         concat (map (\<lambda>idx_2. map (move_for idx_1 idx_2) (py_range 0 4))
                     (py_range idx_1 (int n)))) rest))"
    by simp
  ultimately show ?case using sh ds rec by simp
qed

lemma base_wor_mset:
  assumes "rearranges shuffle"
  shows "mset (fst (base_random_local_moves_wor shuffle s g)) = mset (base_local_moves s)"
proof -
  obtain range_1 g1 where sh: "shuffle g (py_range 0 (int (pn (problem s)))) = (range_1, g1)"
    by (cases "shuffle g (py_range 0 (int (pn (problem s))))")
  from assms sh
  have "mset range_1 = mset (py_range 0 (int (pn (problem s))))"
    by (metis rearranges_def fst_conv)
  from mset_concat_map_cong [OF this] wor_rows_mset [OF assms, of "pn (problem s)" range_1 g1] sh
  show ?thesis
    by (simp add: base_random_local_moves_wor_def base_local_moves_def)
qed

lemma distinct_concat_map:
  assumes "distinct xs" "\<And>x. x \<in> set xs \<Longrightarrow> distinct (f x)"
    "\<And>x y. x \<in> set xs \<Longrightarrow> y \<in> set xs \<Longrightarrow> x \<noteq> y \<Longrightarrow> set (f x) \<inter> set (f y) = {}"
  shows "distinct (concat (map f xs))"
  using assms
proof (induction xs)
  case Nil
  then show ?case by simp
next
  case (Cons a xs)
  then have "distinct (concat (map f xs))" by simp
  moreover from Cons.prems have "distinct (f a)" by simp
  moreover have "set (f a) \<inter> set (concat (map f xs)) = {}"
  proof -
    have "\<And>y. y \<in> set xs \<Longrightarrow> set (f a) \<inter> set (f y) = {}"
      using Cons.prems(1,3) by auto
    then show ?thesis by auto
  qed
  ultimately show ?case by simp
qed

lemma move_for_fields: "lmove_i (move_for a b d) = a" "lmove_j (move_for a b d) = b"
  by (simp_all add: move_for_def)

lemma distinct_dirs: "distinct (map (move_for a b) (py_range 0 4))"
  by (simp add: py_range_def upto_eval move_for_def)

lemma base_local_moves_distinct: "distinct (base_local_moves s)"
  unfolding base_local_moves_def
proof (rule distinct_concat_map)
  show "distinct (py_range 0 (int (pn (problem s))))" by (simp add: py_range_def)
next
  fix a
  show "distinct (concat (map (\<lambda>idx_2. map (move_for a idx_2) (py_range 0 4))
                   (py_range a (int (pn (problem s))))))"
  proof (rule distinct_concat_map)
    show "distinct (py_range a (int (pn (problem s))))" by (simp add: py_range_def)
  next
    fix b show "distinct (map (move_for a b) (py_range 0 4))" by (rule distinct_dirs)
  next
    fix b b' :: int assume "b \<noteq> b'"
    then show "set (map (move_for a b) (py_range 0 4)) \<inter> set (map (move_for a b') (py_range 0 4)) = {}"
      by (auto dest: arg_cong [where f = lmove_j] simp: move_for_fields)
  qed
next
  fix a a' :: int assume "a \<noteq> a'"
  then show "set (concat (map (\<lambda>idx_2. map (move_for a idx_2) (py_range 0 4))
                   (py_range a (int (pn (problem s))))))
     \<inter> set (concat (map (\<lambda>idx_2. map (move_for a' idx_2) (py_range 0 4))
                   (py_range a' (int (pn (problem s)))))) = {}"
    by (auto dest: arg_cong [where f = lmove_i] simp: move_for_fields)
qed


lemma tsp_local_moves_set:
  "set (tsp_local_moves s)
     = {tsp_LocalMove i j | i j. 1 \<le> i \<and> i + 2 \<le> j \<and> j < int (length (path s))}"
proof -
  have "\<And>i j. 1 \<le> i \<Longrightarrow> i + 2 \<le> j \<Longrightarrow> j < int (length (path s)) \<Longrightarrow>
     \<exists>x\<in>{1..int (length (path s)) - 1}.
        tsp_LocalMove i j \<in> tsp_LocalMove x ` {x + 2..int (length (path s)) - 1}"
  proof -
    fix i j :: int
    assume "1 \<le> i" "i + 2 \<le> j" "j < int (length (path s))"
    then have "i \<in> {1..int (length (path s)) - 1}" "j \<in> {i + 2..int (length (path s)) - 1}"
      by auto
    then show "\<exists>x\<in>{1..int (length (path s)) - 1}.
        tsp_LocalMove i j \<in> tsp_LocalMove x ` {x + 2..int (length (path s)) - 1}"
      by blast
  qed
  then show ?thesis by (auto simp: tsp_local_moves_def py_range_def)
qed

lemma tsp_local_moves_distinct: "distinct (tsp_local_moves s)"
  unfolding tsp_local_moves_def
proof (rule distinct_concat_map)
  show "distinct (py_range 1 (int (length (path s))))" by (simp add: py_range_def)
next
  fix a
  show "distinct (map (tsp_LocalMove a) (py_range (a + 2) (int (length (path s)))))"
    by (simp add: py_range_def distinct_map inj_on_def)
next
  fix a a' :: int assume "a \<noteq> a'"
  then show "set (map (tsp_LocalMove a) (py_range (a + 2) (int (length (path s)))))
      \<inter> set (map (tsp_LocalMove a') (py_range (a' + 2) (int (length (path s))))) = {}"
    by auto
qed

lemma tsp_wor_set:
  assumes "covers_pairs (int (length (path s))) (int (length (path s))) ps"
  shows "set (tsp_random_local_moves_wor s ps) = set (tsp_local_moves s)"
proof -
  from assms have "set ps = set (List.product (py_range 0 (int (length (path s))))
      (py_range 0 (int (length (path s)))))"
    unfolding covers_pairs_def by (rule mset_eq_setD)
  then have "set ps = {0..int (length (path s)) - 1} \<times> {0..int (length (path s)) - 1}"
    by (simp add: py_range_def)
  then show ?thesis
    unfolding tsp_local_moves_set tsp_random_local_moves_wor_def
    by (auto simp: image_iff)
qed

lemma tsp_wor_distinct:
  assumes "covers_pairs (int (length (path s))) (int (length (path s))) ps"
  shows "distinct (tsp_random_local_moves_wor s ps)"
proof -
  have "distinct (List.product (py_range 0 (int (length (path s))))
      (py_range 0 (int (length (path s)))))"
    by (simp add: distinct_product py_range_def)
  with assms have "distinct ps"
    unfolding covers_pairs_def by (metis mset_eq_imp_distinct_iff)
  then show ?thesis
    by (auto simp: tsp_random_local_moves_wor_def distinct_map inj_on_def)
qed

text \<open>
  C6. Whatever \<^verbatim>\<open>random.shuffle\<close> does, as long as it rearranges its list, and
  whatever order \<^verbatim>\<open>sample2\<close> yields the pairs of positions in, as long as it
  yields each pair once: the moves of \<^verbatim>\<open>random_local_moves_wor\<close> are the moves of
  \<^verbatim>\<open>local_moves\<close>, as multisets, and neither enumeration repeats a move. This
  holds for every solution of \<^verbatim>\<open>base.py\<close> and every solution of \<^verbatim>\<open>tsp.py\<close>.
\<close>

theorem C6_wor_is_permutation:
  assumes "rearranges shuffle"
    and "covers_pairs (int (length (path t))) (int (length (path t))) sample2"
  shows "mset (fst (base_random_local_moves_wor shuffle s g)) = mset (base_local_moves s) \<and>
         distinct (base_local_moves s) \<and>
         distinct (fst (base_random_local_moves_wor shuffle s g)) \<and>
         mset (tsp_random_local_moves_wor t sample2) = mset (tsp_local_moves t) \<and>
         distinct (tsp_local_moves t) \<and>
         distinct (tsp_random_local_moves_wor t sample2)"
proof -
  note m = base_wor_mset [OF assms(1), of s g]
  from m base_local_moves_distinct [of s]
  have d: "distinct (fst (base_random_local_moves_wor shuffle s g))"
    by (metis mset_eq_imp_distinct_iff)
  from tsp_wor_set [OF assms(2)] tsp_wor_distinct [OF assms(2)] tsp_local_moves_distinct [of t]
  have "mset (tsp_random_local_moves_wor t sample2) = mset (tsp_local_moves t)"
    by (simp add: set_eq_iff_mset_eq_distinct)
  with m d base_local_moves_distinct [of s] tsp_local_moves_distinct [of t]
    tsp_wor_distinct [OF assms(2)]
  show ?thesis by blast
qed

theorem C6_wor_is_permutation_witness:
  "rearranges (\<lambda>(g::unit) xs. (rev xs, g)) \<and>
   covers_pairs (int (length (path square_tour))) (int (length (path square_tour)))
     (rev (List.product (py_range 0 5) (py_range 0 5))) \<and>
   mset (fst (base_random_local_moves_wor (\<lambda>(g::unit) xs. (rev xs, g))
               (base_empty_solution depot_side) ()))
     = mset (base_local_moves (base_empty_solution depot_side)) \<and>
   distinct (fst (base_random_local_moves_wor (\<lambda>(g::unit) xs. (rev xs, g))
               (base_empty_solution depot_side) ())) \<and>
   mset (tsp_random_local_moves_wor square_tour
           (rev (List.product (py_range 0 5) (py_range 0 5))))
     = mset (tsp_local_moves square_tour) \<and>
   tsp_random_local_moves_wor square_tour (rev (List.product (py_range 0 5) (py_range 0 5)))
     = [tsp_LocalMove 2 4, tsp_LocalMove 1 4, tsp_LocalMove 1 3] \<and>
   tsp_local_moves square_tour = [tsp_LocalMove 1 3, tsp_LocalMove 1 4, tsp_LocalMove 2 4]"
proof -
  have h1: "rearranges (\<lambda>(g::unit) xs. (rev xs, g))"
    by (simp add: rearranges_def)
  have h2: "covers_pairs (int (length (path square_tour))) (int (length (path square_tour)))
     (rev (List.product (py_range 0 5) (py_range 0 5)))"
    by (simp add: covers_pairs_def square_tour_def)
  have e1: "tsp_random_local_moves_wor square_tour
      (rev (List.product (py_range 0 5) (py_range 0 5)))
     = [tsp_LocalMove 2 4, tsp_LocalMove 1 4, tsp_LocalMove 1 3]"
    by (simp add: tsp_random_local_moves_wor_def py_range_def upto_rec1)
  have e2: "tsp_local_moves square_tour
     = [tsp_LocalMove 1 3, tsp_LocalMove 1 4, tsp_LocalMove 2 4]"
    by (simp add: tsp_local_moves_def square_tour_def py_range_def upto_rec1)
  from C6_wor_is_permutation [OF h1 h2, of "base_empty_solution depot_side" "()"] h1 h2 e1 e2
  show ?thesis by blast
qed

subsection \<open>Adding a visited unit\<close>

lemma tsp_add_Returns:
  assumes "tsp_add s c = Returns s'"
  shows "\<exists>d. getitem2 (dist_tab (tsp_problem s)) (comp_u c) (comp_v c) = Inr d \<and>
     (comp_v c \<noteq> start s \<longrightarrow> comp_v c \<in> set (unused s)) \<and>
     s' = s\<lparr>path := path s @ [comp_v c],
            unused := (if comp_v c \<noteq> start s then remove1 (comp_v c) (unused s) else unused s),
            used := insert (comp_v c) (used s),
            dist_acc := dist_acc s + d\<rparr>"
  using assms
  by (auto simp: tsp_add_def set_remove_def Let_def split: sum.splits if_splits)

lemma tsp_step_frame:
  assumes "left_by (tsp_step s m) = s'"
  shows "tsp_problem s' = tsp_problem s \<and> start s' = start s \<and> used s' = used s \<and>
     unused s' = unused s"
  using assms
  by (auto simp: tsp_step_def Let_def split: sum.splits option.splits)

lemma tsp_inv_add:
  assumes "tsp_inv p s" and "tsp_add s c = Returns s'"
  shows "tsp_inv p s'"
proof -
  from tsp_add_Returns [OF assms(2)] obtain d where
    mem: "comp_v c \<noteq> start s \<longrightarrow> comp_v c \<in> set (unused s)" and
    s': "s' = s\<lparr>path := path s @ [comp_v c],
            unused := (if comp_v c \<noteq> start s then remove1 (comp_v c) (unused s) else unused s),
            used := insert (comp_v c) (used s),
            dist_acc := dist_acc s + d\<rparr>"
    by blast
  from assms(1) show ?thesis
    unfolding tsp_inv_def s' by (auto dest: notin_set_remove1)
qed

lemma tsp_inv_step:
  assumes "tsp_inv p s" and "tsp_step s m = Returns s'"
  shows "tsp_inv p s'"
proof -
  from assms(2) have "left_by (tsp_step s m) = s'" by simp
  from tsp_step_frame [OF this] assms(1) show ?thesis by (simp add: tsp_inv_def)
qed

lemma tsp_reachable_inv: "tsp_reachable p s \<Longrightarrow> tsp_inv p s"
proof (induction rule: tsp_reachable.induct)
  case tsp_reach_empty
  show ?case by (auto simp: tsp_inv_def tsp_empty_solution_def py_range_def)
next
  case (tsp_reach_start st)
  show ?case by (auto simp: tsp_inv_def tsp_empty_solution_with_start_def py_range_def distinct_removeAll)
next
  case (tsp_reach_add s c s')
  then show ?case by (auto intro: tsp_inv_add)
next
  case (tsp_reach_step s m s')
  then show ?case by (auto intro: tsp_inv_step)
qed

text \<open>
  C7, amended. In \<^verbatim>\<open>base.py\<close>, on every state a driver can hold, \<^verbatim>\<open>add\<close> of a
  component whose container is already picked never returns: either the cost
  lookup raises and the solution is unchanged, or \<^verbatim>\<open>not_picked.remove\<close> raises
  \<^verbatim>\<open>KeyError\<close>, and then the sequence, the orientation array and \<^verbatim>\<open>obj_value\<close>
  have already been extended (the two sets are as before). In \<^verbatim>\<open>tsp.py\<close>, \<^verbatim>\<open>add\<close>
  of a visited point other than the start raises \<^verbatim>\<open>KeyError\<close> with the point
  already appended to the path; \<^verbatim>\<open>add\<close> of the start, which is visited from the
  beginning, returns normally whenever the distance lookup succeeds.
\<close>

theorem C7_add_visited:
  "(base_reachable p s \<and> node c \<in> picked s \<longrightarrow>
      (\<forall>e. base_add_cost s c = Inl e \<longrightarrow> base_add s c = Raises e s) \<and>
      (\<forall>w. base_add_cost s c = Inr w \<longrightarrow>
           base_add s c = Raises KeyError
             (s\<lparr>obj_value := obj_value s + w, containers := containers s @ [node c],
                directions := directions s @ [direction c]\<rparr>))) \<and>
   (tsp_reachable q t \<and> comp_v k \<in> used t \<and> comp_v k \<noteq> start t \<longrightarrow>
      tsp_add t k = Raises KeyError (t\<lparr>path := path t @ [comp_v k]\<rparr>)) \<and>
   (tsp_reachable q t \<and> comp_v k = start t \<longrightarrow>
      (\<forall>d. getitem2 (dist_tab q) (comp_u k) (comp_v k) = Inr d \<longrightarrow>
           tsp_add t k = Returns (t\<lparr>path := path t @ [start t], dist_acc := dist_acc t + d\<rparr>)))"
proof (intro conjI impI allI)
  fix e assume a: "base_reachable p s \<and> node c \<in> picked s" and b: "base_add_cost s c = Inl e"
  from b show "base_add s c = Raises e s" by (simp add: base_add_def)
next
  fix w assume a: "base_reachable p s \<and> node c \<in> picked s" and b: "base_add_cost s c = Inr w"
  from a base_reachable_inv [of p s] have "node c \<notin> set (not_picked s)"
    by (auto simp: base_inv_def)
  with a b show "base_add s c = Raises KeyError
             (s\<lparr>obj_value := obj_value s + w, containers := containers s @ [node c],
                directions := directions s @ [direction c]\<rparr>)"
    by (simp add: base_add_def set_remove_def insert_absorb)
next
  assume a: "tsp_reachable q t \<and> comp_v k \<in> used t \<and> comp_v k \<noteq> start t"
  with tsp_reachable_inv [of q t] have "comp_v k \<notin> set (unused t)"
    by (auto simp: tsp_inv_def)
  with a show "tsp_add t k = Raises KeyError (t\<lparr>path := path t @ [comp_v k]\<rparr>)"
    by (simp add: tsp_add_def set_remove_def)
next
  fix d assume a: "tsp_reachable q t \<and> comp_v k = start t"
    and b: "getitem2 (dist_tab q) (comp_u k) (comp_v k) = Inr d"
  with tsp_reachable_inv [of q t] have "tsp_problem t = q" "start t \<in> used t"
    by (auto simp: tsp_inv_def)
  with a b show "tsp_add t k = Returns (t\<lparr>path := path t @ [start t], dist_acc := dist_acc t + d\<rparr>)"
    by (simp add: tsp_add_def insert_absorb)
qed


lemma square_add1:
  "tsp_add (tsp_empty_solution square) (tsp_Component 0 1) = Returns square_first"
  by (simp add: tsp_empty_solution_def tsp_add_def square_dist_tab square_nnodes
      set_remove_def py_range_def upto_eval getitem2_def getitem_def py_index_def ebind_def
      square_first_def insert_commute)

lemma square_first_reachable: "tsp_reachable square square_first"
  using tsp_reach_add [OF tsp_reach_empty square_add1] .

lemma routes3_add_again:
  "base_add_cost routes3_second (base_Component 0 0) = Inr 2"
  by (simp add: base_add_cost_def connection_cost_def with_dir_def
      dir_idx_of_bits routes3_def routes3_second_def eval_defs)

lemma square_first_lookup:
  "getitem2 (dist_tab square) (comp_u (tsp_Component 1 0)) (comp_v (tsp_Component 1 0)) = Inr 1"
  by (simp add: square_dist_tab getitem2_def getitem_def py_index_def ebind_def)

theorem C7_add_visited_witness:
  "base_reachable routes3 routes3_second \<and>
   node (base_Component 0 0 :: (int, int) base_Component) \<in> picked routes3_second \<and>
   base_add_cost routes3_second (base_Component 0 0) = Inr 2 \<and>
   base_add routes3_second (base_Component 0 0)
     = Raises KeyError
         (routes3_second\<lparr>obj_value := 4, containers := [0, 1, 0], directions := [0, 0, 0]\<rparr>) \<and>
   tsp_reachable square square_first \<and>
   comp_v (tsp_Component 1 1) \<in> used square_first \<and>
   comp_v (tsp_Component 1 1) \<noteq> start square_first \<and>
   tsp_add square_first (tsp_Component 1 1)
     = Raises KeyError (square_first\<lparr>path := [0, 1, 1]\<rparr>) \<and>
   comp_v (tsp_Component 1 0) = start square_first \<and>
   tsp_add square_first (tsp_Component 1 0)
     = Returns (square_first\<lparr>path := [0, 1, 0], dist_acc := 2\<rparr>)"
proof -
  have h1: "node (base_Component 0 0 :: (int, int) base_Component) \<in> picked routes3_second"
    by (simp add: routes3_second_def)
  have h2: "comp_v (tsp_Component 1 1) \<in> used square_first"
    "comp_v (tsp_Component 1 1) \<noteq> start square_first"
    "comp_v (tsp_Component 1 0) = start square_first"
    by (simp_all add: square_first_def)
  from C7_add_visited [of routes3 routes3_second "base_Component 0 0" square square_first
      "tsp_Component 1 1"]
    routes3_second_reachable h1 routes3_add_again square_first_reachable h2
  have a: "base_add routes3_second (base_Component 0 0)
     = Raises KeyError
         (routes3_second\<lparr>obj_value := obj_value routes3_second + 2,
            containers := containers routes3_second @ [node (base_Component 0 0 :: (int, int) base_Component)],
            directions := directions routes3_second @ [direction (base_Component 0 0 :: (int, int) base_Component)]\<rparr>)"
    and b: "tsp_add square_first (tsp_Component 1 1)
     = Raises KeyError (square_first\<lparr>path := path square_first @ [comp_v (tsp_Component 1 1)]\<rparr>)"
    by blast+
  from C7_add_visited [of routes3 routes3_second "base_Component 0 0" square square_first
      "tsp_Component 1 0"]
    square_first_reachable h2 square_first_lookup
  have c: "tsp_add square_first (tsp_Component 1 0)
     = Returns (square_first\<lparr>path := path square_first @ [start square_first],
         dist_acc := dist_acc square_first + 1\<rparr>)"
    by blast
  have a': "routes3_second\<lparr>obj_value := obj_value routes3_second + 2,
            containers := containers routes3_second @ [node (base_Component 0 0 :: (int, int) base_Component)],
            directions := directions routes3_second @ [direction (base_Component 0 0 :: (int, int) base_Component)]\<rparr>
     = routes3_second\<lparr>obj_value := 4, containers := [0, 1, 0], directions := [0, 0, 0]\<rparr>"
    by (simp add: routes3_second_def)
  have b': "square_first\<lparr>path := path square_first @ [comp_v (tsp_Component 1 1)]\<rparr>
     = square_first\<lparr>path := [0, 1, 1]\<rparr>"
    by (simp add: square_first_def)
  have c': "square_first\<lparr>path := path square_first @ [start square_first],
         dist_acc := dist_acc square_first + 1\<rparr>
     = square_first\<lparr>path := [0, 1, 0], dist_acc := 2\<rparr>"
    by (simp add: square_first_def)
  from a b c routes3_second_reachable h1 routes3_add_again square_first_reachable h2
  show ?thesis unfolding a' b' c' by (intro conjI)
qed

text \<open>
  C7 as stated fails twice. On \<open>routes3\<close> with containers 0 and 1 picked, \<^verbatim>\<open>add\<close>
  of container 0 raises \<^verbatim>\<open>KeyError\<close> and leaves a longer sequence and a larger
  \<^verbatim>\<open>obj_value\<close> behind. On the unit square with the points 0 and 1 visited,
  \<^verbatim>\<open>add\<close> of the visited point 0, the start, returns.
\<close>

theorem C7_counterexample:
  "base_reachable routes3 routes3_second \<and>
   0 \<in> picked routes3_second \<and>
   base_add routes3_second (base_Component 0 0)
     = Raises KeyError
         (routes3_second\<lparr>obj_value := 4, containers := [0, 1, 0], directions := [0, 0, 0]\<rparr>) \<and>
   containers (left_by (base_add routes3_second (base_Component 0 0)))
     \<noteq> containers routes3_second \<and>
   obj_value (left_by (base_add routes3_second (base_Component 0 0)))
     \<noteq> obj_value routes3_second \<and>
   tsp_reachable square square_first \<and>
   0 \<in> used square_first \<and>
   tsp_add square_first (tsp_Component 1 0)
     = Returns (square_first\<lparr>path := [0, 1, 0], dist_acc := 2\<rparr>)"
proof -
  have a: "base_add routes3_second (base_Component 0 0)
     = Raises KeyError
         (routes3_second\<lparr>obj_value := 4, containers := [0, 1, 0], directions := [0, 0, 0]\<rparr>)"
    unfolding base_add_def routes3_add_again
    by (simp add: set_remove_def routes3_second_def insert_absorb)
  have b: "tsp_add square_first (tsp_Component 1 0)
     = Returns (square_first\<lparr>path := [0, 1, 0], dist_acc := 2\<rparr>)"
    by (simp add: tsp_add_def square_first_def square_dist_tab getitem2_def getitem_def
        py_index_def ebind_def)
  have c: "0 \<in> picked routes3_second" "0 \<in> used square_first"
    by (simp_all add: routes3_second_def square_first_def)
  have d: "containers (left_by (base_add routes3_second (base_Component 0 0)))
     \<noteq> containers routes3_second"
    "obj_value (left_by (base_add routes3_second (base_Component 0 0)))
     \<noteq> obj_value routes3_second"
    unfolding a by (simp_all add: routes3_second_def)
  from a b c d routes3_second_reachable square_first_reachable
  show ?thesis by (intro conjI)
qed

subsection \<open>The first element of the sequence\<close>

lemma hd_set_slice:
  assumes "xs \<noteq> []" "1 \<le> a"
  shows "hd (set_slice xs a b ys) = hd xs"
proof -
  from assms have "slice_bound (length xs) a \<ge> 1"
    by (cases xs) (auto simp: slice_bound_def)
  then obtain k where k: "slice_bound (length xs) a = Suc k"
    by (cases "slice_bound (length xs) a") auto
  from assms(1) have "take (Suc k) xs = hd xs # take k (tl xs)"
    by (cases xs) auto
  with k show ?thesis by (simp add: set_slice_def Let_def)
qed

lemma tsp_add_hd:
  "path s \<noteq> [] \<Longrightarrow> hd (path (left_by (tsp_add s c))) = hd (path s)"
  by (auto simp: tsp_add_def Let_def split: sum.splits)

lemma tsp_step_path:
  "path (left_by (tsp_step s m)) = path s \<or>
   path (left_by (tsp_step s m))
     = set_slice (path s) (move_i m) (move_j m) (rev (slice (path s) (move_i m) (move_j m)))"
  by (auto simp: tsp_step_def Let_def split: sum.splits option.splits)

lemma tsp_step_hd:
  assumes "path s \<noteq> []" "1 \<le> move_i m"
  shows "hd (path (left_by (tsp_step s m))) = hd (path s)"
  using tsp_step_path [of s m] hd_set_slice [OF assms] by auto

lemma tsp_moves_from_1:
  "m \<in> set (tsp_local_moves s) \<or> m \<in> set (tsp_random_local_moves_wor s ps) \<Longrightarrow> 1 \<le> move_i m"
  by (auto simp: tsp_local_moves_set tsp_random_local_moves_wor_def)

lemma base_add_hd:
  "containers s \<noteq> [] \<Longrightarrow> hd (containers (left_by (base_add s c))) = hd (containers s)"
  by (auto simp: base_add_def Let_def split: sum.splits)

lemma base_local_moves_bounds:
  assumes "m \<in> set (base_local_moves s)"
  shows "0 \<le> lmove_i m \<and> lmove_i m \<le> lmove_j m \<and> lmove_j m < int (pn (problem s))"
  using assms by (auto simp: base_local_moves_def py_range_def move_for_fields)

lemma hd_list_update: "0 < k \<Longrightarrow> hd (xs[k := w]) = hd xs"
  by (cases xs; cases k) simp_all

lemma setitem_hd: "0 < k \<Longrightarrow> setitem xs k w = Inr ys \<Longrightarrow> hd ys = hd xs"
  by (auto simp: setitem_def py_index_def ebind_def hd_list_update split: if_splits)

lemma ebind_Inr: "ebind m f = Inr b \<Longrightarrow> \<exists>a. m = Inr a \<and> f a = Inr b"
  by (cases m) (simp_all add: ebind_def)

lemma base_step_containers:
  "containers (left_by (base_step s m)) = containers s \<or>
   (\<exists>a cs1. setitem (containers s) (lmove_i m) a = Inr cs1 \<and>
      (containers (left_by (base_step s m)) = cs1 \<or>
       (\<exists>tmp cs2. setitem cs1 (lmove_j m) tmp = Inr cs2 \<and>
          containers (left_by (base_step s m)) = cs2)))"
  by (auto simp: base_step_def Let_def split: sum.splits dest!: ebind_Inr)

lemma base_step_hd:
  assumes "0 < lmove_i m" "0 < lmove_j m"
  shows "hd (containers (left_by (base_step s m))) = hd (containers s)"
proof -
  note a = setitem_hd [OF assms(1)] and b = setitem_hd [OF assms(2)]
  from base_step_containers [of s m] show ?thesis
  proof (elim disjE exE conjE)
    assume "containers (left_by (base_step s m)) = containers s"
    then show ?thesis by simp
  next
    fix w cs1
    assume "setitem (containers s) (lmove_i m) w = Inr cs1"
      "containers (left_by (base_step s m)) = cs1"
    then show ?thesis using a by simp
  next
    fix w cs1 tmp cs2
    assume "setitem (containers s) (lmove_i m) w = Inr cs1"
      "setitem cs1 (lmove_j m) tmp = Inr cs2"
      "containers (left_by (base_step s m)) = cs2"
    then show ?thesis using a [of "containers s" w cs1] b [of cs1 tmp cs2] by simp
  qed
qed

lemma base_step_first:
  assumes "lmove_i m = 0" "0 \<le> lmove_j m" "base_step s m = Returns s'"
  shows "hd (containers s') = containers s ! nat (lmove_j m)"
proof -
  let ?cs = "containers s"
  from assms(3) obtain tmp cs1 cs2 where
    t: "getitem ?cs (lmove_i m) = Inr tmp" and
    c1: "ebind (getitem ?cs (lmove_j m)) (setitem ?cs (lmove_i m)) = Inr cs1" and
    c2: "setitem cs1 (lmove_j m) tmp = Inr cs2" and
    s': "containers s' = cs2"
    by (auto simp: base_step_def Let_def split: sum.splits)
  from t assms(1) have ne: "?cs \<noteq> []" and tmp: "tmp = ?cs ! 0"
    by (auto simp: getitem_def py_index_def ebind_def split: if_splits)
  from c1 assms(1,2) have j: "lmove_j m < int (length ?cs)"
    and cs1: "cs1 = ?cs[0 := ?cs ! nat (lmove_j m)]"
    by (auto simp: getitem_def setitem_def py_index_def ebind_def split: if_splits)
  from c2 assms(2) j cs1 have cs2: "cs2 = cs1[nat (lmove_j m) := tmp]"
    by (auto simp: setitem_def py_index_def ebind_def split: if_splits)
  show ?thesis
  proof (cases "lmove_j m = 0")
    case True
    with ne show ?thesis by (simp add: s' cs2 cs1 tmp hd_conv_nth)
  next
    case False
    with assms(2) have "0 < nat (lmove_j m)" by simp
    with ne show ?thesis by (simp add: s' cs2 cs1 hd_list_update hd_conv_nth)
  qed
qed

lemma base_wor_set:
  "rearranges shuffle \<Longrightarrow>
   set (fst (base_random_local_moves_wor shuffle s g)) = set (base_local_moves s)"
  by (rule mset_eq_setD) (rule base_wor_mset)

text \<open>
  C8, amended. In \<^verbatim>\<open>tsp.py\<close> the first element of a non-empty path is never
  changed: not by \<^verbatim>\<open>add\<close>, and not by \<^verbatim>\<open>step\<close> with a move that \<^verbatim>\<open>local_moves\<close> or
  \<^verbatim>\<open>random_local_moves_wor\<close> yields, whether the call returns or raises. In
  \<^verbatim>\<open>base.py\<close> the first element of a non-empty sequence is not changed by \<^verbatim>\<open>add\<close>,
  nor by \<^verbatim>\<open>step\<close> with a yielded move whose first index is not 0; a yielded move
  \<^verbatim>\<open>LocalMove(0, j, ..)\<close> that \<^verbatim>\<open>step\<close> applies puts the element of position \<open>j\<close>
  first.
\<close>

theorem C8_first_element:
  "(path t \<noteq> [] \<longrightarrow> hd (path (left_by (tsp_add t k))) = hd (path t)) \<and>
   (path t \<noteq> [] \<and>
    (m \<in> set (tsp_local_moves t) \<or> m \<in> set (tsp_random_local_moves_wor t sample2)) \<longrightarrow>
      hd (path (left_by (tsp_step t m))) = hd (path t)) \<and>
   (containers s \<noteq> [] \<longrightarrow> hd (containers (left_by (base_add s c))) = hd (containers s)) \<and>
   (rearranges shuffle \<and>
    (bm \<in> set (base_local_moves s) \<or>
     bm \<in> set (fst (base_random_local_moves_wor shuffle s g))) \<and> lmove_i bm \<noteq> 0 \<longrightarrow>
      hd (containers (left_by (base_step s bm))) = hd (containers s)) \<and>
   (rearranges shuffle \<and>
    (bm \<in> set (base_local_moves s) \<or>
     bm \<in> set (fst (base_random_local_moves_wor shuffle s g))) \<and> lmove_i bm = 0 \<and>
    base_step s bm = Returns s' \<longrightarrow>
      hd (containers s') = containers s ! nat (lmove_j bm))"
proof (intro conjI impI)
  assume "path t \<noteq> []"
  then show "hd (path (left_by (tsp_add t k))) = hd (path t)" by (rule tsp_add_hd)
next
  assume a: "path t \<noteq> [] \<and>
    (m \<in> set (tsp_local_moves t) \<or> m \<in> set (tsp_random_local_moves_wor t sample2))"
  then have "1 \<le> move_i m" using tsp_moves_from_1 by blast
  with a show "hd (path (left_by (tsp_step t m))) = hd (path t)" by (simp add: tsp_step_hd)
next
  assume "containers s \<noteq> []"
  then show "hd (containers (left_by (base_add s c))) = hd (containers s)" by (rule base_add_hd)
next
  assume a: "rearranges shuffle \<and>
    (bm \<in> set (base_local_moves s) \<or>
     bm \<in> set (fst (base_random_local_moves_wor shuffle s g))) \<and> lmove_i bm \<noteq> 0"
  then have "rearranges shuffle" by simp
  from base_wor_set [OF this, of s g] a have "bm \<in> set (base_local_moves s)" by simp
  from base_local_moves_bounds [OF this] a have "0 < lmove_i bm" "0 < lmove_j bm" by auto
  then show "hd (containers (left_by (base_step s bm))) = hd (containers s)"
    by (rule base_step_hd)
next
  assume a: "rearranges shuffle \<and>
    (bm \<in> set (base_local_moves s) \<or>
     bm \<in> set (fst (base_random_local_moves_wor shuffle s g))) \<and> lmove_i bm = 0 \<and>
    base_step s bm = Returns s'"
  then have "rearranges shuffle" by simp
  from base_wor_set [OF this, of s g] a have "bm \<in> set (base_local_moves s)" by simp
  from base_local_moves_bounds [OF this] have "0 \<le> lmove_j bm" by simp
  moreover from a have "lmove_i bm = 0" "base_step s bm = Returns s'" by simp_all
  ultimately show "hd (containers s') = containers s ! nat (lmove_j bm)"
    using base_step_first [of bm s s'] by simp
qed


lemma routes3_moves:
  "base_LocalMove 1 2 0 0 \<in> set (base_local_moves routes3_tour)"
  "base_LocalMove 0 2 0 0 \<in> set (base_local_moves routes3_tour)"
  by (simp_all add: base_local_moves_def move_for_def routes3_tour_def routes3_def
      py_range_def upto_rec1)

lemma square_moves: "tsp_LocalMove 1 3 \<in> set (tsp_local_moves square_tour)"
  by (simp add: tsp_local_moves_set square_tour_def)

theorem C8_first_element_witness:
  "path square_tour \<noteq> [] \<and>
   hd (path (left_by (tsp_add square_tour (tsp_Component 0 1)))) = hd (path square_tour) \<and>
   tsp_LocalMove 1 3 \<in> set (tsp_local_moves square_tour) \<and>
   hd (path (left_by (tsp_step square_tour (tsp_LocalMove 1 3)))) = hd (path square_tour) \<and>
   containers routes3_tour \<noteq> [] \<and>
   hd (containers (left_by (base_add routes3_tour (base_Component 0 0))))
     = hd (containers routes3_tour) \<and>
   rearranges (\<lambda>(g::unit) xs. (rev xs, g)) \<and>
   base_LocalMove 1 2 0 0 \<in> set (base_local_moves routes3_tour) \<and>
   lmove_i (base_LocalMove 1 2 0 0) \<noteq> 0 \<and>
   hd (containers (left_by (base_step routes3_tour (base_LocalMove 1 2 0 0))))
     = hd (containers routes3_tour) \<and>
   base_LocalMove 0 2 0 0 \<in> set (base_local_moves routes3_tour) \<and>
   lmove_i (base_LocalMove 0 2 0 0) = 0 \<and>
   base_step routes3_tour (base_LocalMove 0 2 0 0)
     = Returns (routes3_tour\<lparr>containers := [2, 1, 0]\<rparr>) \<and>
   hd (containers (routes3_tour\<lparr>containers := [2, 1, 0]\<rparr>))
     = containers routes3_tour ! nat (lmove_j (base_LocalMove 0 2 0 0))"
proof -
  have h1: "path square_tour \<noteq> []" by (simp add: square_tour_def)
  have h2: "containers routes3_tour \<noteq> []" by (simp add: routes3_tour_def)
  have h3: "rearranges (\<lambda>(g::unit) xs. (rev xs, g))" by (simp add: rearranges_def)
  have h4: "lmove_i (base_LocalMove 1 2 0 0) \<noteq> 0" "lmove_i (base_LocalMove 0 2 0 0) = 0"
    by simp_all
  from C8_first_element [of square_tour "tsp_Component 0 1" "tsp_LocalMove 1 3" "[]"
      routes3_tour "base_Component 0 0" "\<lambda>(g::unit) xs. (rev xs, g)" "base_LocalMove 1 2 0 0" "()"]
    h1 h2 h3 h4 square_moves routes3_moves
  have a: "hd (path (left_by (tsp_add square_tour (tsp_Component 0 1)))) = hd (path square_tour)"
    "hd (path (left_by (tsp_step square_tour (tsp_LocalMove 1 3)))) = hd (path square_tour)"
    "hd (containers (left_by (base_add routes3_tour (base_Component 0 0))))
       = hd (containers routes3_tour)"
    "hd (containers (left_by (base_step routes3_tour (base_LocalMove 1 2 0 0))))
       = hd (containers routes3_tour)"
    by blast+
  from C8_first_element [of square_tour "tsp_Component 0 1" "tsp_LocalMove 1 3" "[]"
      routes3_tour "base_Component 0 0" "\<lambda>(g::unit) xs. (rev xs, g)" "base_LocalMove 0 2 0 0" "()"
      "routes3_tour\<lparr>containers := [2, 1, 0]\<rparr>"]
    h3 h4 routes3_moves routes3_step
  have b: "hd (containers (routes3_tour\<lparr>containers := [2, 1, 0]\<rparr>))
     = containers routes3_tour ! nat (lmove_j (base_LocalMove 0 2 0 0))"
    by blast
  from a b h1 h2 h3 h4 square_moves routes3_moves routes3_step
  show ?thesis by (intro conjI)
qed

text \<open>
  C8 as stated fails in \<^verbatim>\<open>base.py\<close>: \<^verbatim>\<open>local_moves\<close> yields \<^verbatim>\<open>LocalMove(0, 2, 0, 0)\<close> on
  the complete solution \<open>0, 1, 2\<close> of \<open>routes3\<close>, and \<^verbatim>\<open>step\<close> with it makes container
  2 the first element.
\<close>

theorem C8_counterexample:
  "base_reachable routes3 routes3_tour \<and>
   containers routes3_tour \<noteq> [] \<and>
   base_LocalMove 0 2 0 0 \<in> set (base_local_moves routes3_tour) \<and>
   base_step routes3_tour (base_LocalMove 0 2 0 0)
     = Returns (routes3_tour\<lparr>containers := [2, 1, 0]\<rparr>) \<and>
   hd (containers routes3_tour) = 0 \<and>
   hd (containers (routes3_tour\<lparr>containers := [2, 1, 0]\<rparr>)) = 2"
proof -
  have "containers routes3_tour \<noteq> []" "hd (containers routes3_tour) = 0"
    "hd (containers (routes3_tour\<lparr>containers := [2, 1, 0]\<rparr>)) = 2"
    by (simp_all add: routes3_tour_def)
  with routes3_tour_reachable routes3_moves(2) routes3_step
  show ?thesis by (intro conjI)
qed

subsection \<open>A copy is independent of its original\<close>

lemma base_apply_problem: "problem (base_apply op s) = problem s"
proof (cases op)
  case (Add c)
  then show ?thesis
    by (auto simp: base_apply_def base_add_def Let_def split: sum.splits)
next
  case (Step m)
  then show ?thesis using base_step_frame [of s m] by (simp add: base_apply_def)
qed

lemma load_base_SomeD:
  assumes "load_base st a = Some s"
  shows "\<exists>pr cr dr pk np.
     cells st a = Some (SolutionCell pr cr dr pk np (obj_value s)) \<and>
     cells st pr = Some (ProblemCell (problem s)) \<and>
     cells st cr = Some (ListCell (containers s)) \<and>
     cells st dr = Some (ListCell (directions s)) \<and>
     cells st pk = Some (SetCell (picked s)) \<and>
     cells st np = Some (IterSetCell (not_picked s))"
  using assms by (auto simp: load_base_def split: option.splits cell.splits)

lemma load_base_SomeI:
  assumes "cells st a = Some (SolutionCell pr cr dr pk np (obj_value s))"
    "cells st pr = Some (ProblemCell (problem s))"
    "cells st cr = Some (ListCell (containers s))"
    "cells st dr = Some (ListCell (directions s))"
    "cells st pk = Some (SetCell (picked s))"
    "cells st np = Some (IterSetCell (not_picked s))"
  shows "load_base st a = Some s"
  using assms by (simp add: load_base_def)

lemma load_base_cong:
  assumes "allocated st0" "next_addr st0 = n" "load_base st0 a = Some s"
    "\<forall>x < n. cells st x = cells st0 x"
  shows "load_base st a = Some s"
proof -
  from load_base_SomeD [OF assms(3)] obtain pr cr dr pk np where
    c: "cells st0 a = Some (SolutionCell pr cr dr pk np (obj_value s))"
      "cells st0 pr = Some (ProblemCell (problem s))"
      "cells st0 cr = Some (ListCell (containers s))"
      "cells st0 dr = Some (ListCell (directions s))"
      "cells st0 pk = Some (SetCell (picked s))"
      "cells st0 np = Some (IterSetCell (not_picked s))"
    by blast
  with assms(1,2) have "a < n" "pr < n" "cr < n" "dr < n" "pk < n" "np < n"
    by (auto simp: allocated_def)
  with assms(4) c have "cells st a = Some (SolutionCell pr cr dr pk np (obj_value s))"
      "cells st pr = Some (ProblemCell (problem s))"
      "cells st cr = Some (ListCell (containers s))"
      "cells st dr = Some (ListCell (directions s))"
      "cells st pk = Some (SetCell (picked s))"
      "cells st np = Some (IterSetCell (not_picked s))"
    by simp_all
  then show ?thesis by (rule load_base_SomeI)
qed

lemma write_base_fresh:
  assumes "fresh_base st0 pr n st"
  shows "fresh_base st0 pr n (write_base st (n + 4) s)"
  using assms by (auto simp: fresh_base_def write_base_def)

lemma heap_base_apply_fresh:
  "fresh_base st0 pr n st \<Longrightarrow> fresh_base st0 pr n (heap_base_apply (n + 4) op st)"
  by (simp add: heap_base_apply_def write_base_fresh split: option.splits)

lemma heap_base_run_fresh:
  "fresh_base st0 pr n st \<Longrightarrow> fresh_base st0 pr n (heap_base_run st (n + 4) ops)"
  unfolding heap_base_run_def
  by (induction ops arbitrary: st) (simp_all add: heap_base_apply_fresh)

lemma load_write_base:
  assumes "fresh_base st0 pr n st" "pr < n" "cells st0 pr = Some (ProblemCell (problem s))"
  shows "load_base (write_base st (n + 4) s) (n + 4) = Some s"
proof -
  from assms(1) obtain ov where
    o: "cells st (n + 4) = Some (SolutionCell pr n (n + 1) (n + 2) (n + 3) ov)"
    and "cells st pr = cells st0 pr"
    using assms(2) by (auto simp: fresh_base_def)
  with assms(2,3) show ?thesis
    by (intro load_base_SomeI [where pr = pr and cr = n and dr = "n + 1" and pk = "n + 2"
          and np = "n + 3"])
       (simp_all add: write_base_def)
qed

lemma heap_base_run_follows:
  assumes "pr < n" "cells st0 pr = Some (ProblemCell p)"
  shows "fresh_base st0 pr n st \<Longrightarrow> load_base st (n + 4) = Some s \<Longrightarrow> problem s = p \<Longrightarrow>
     load_base (heap_base_run st (n + 4) ops) (n + 4) = Some (base_run s ops)"
proof (induction ops arbitrary: st s)
  case Nil
  then show ?case by (simp add: heap_base_run_def base_run_def)
next
  case (Cons op ops)
  let ?s' = "base_apply op s"
  let ?st' = "write_base st (n + 4) ?s'"
  from Cons.prems(3) have p: "problem ?s' = p" by (simp add: base_apply_problem)
  from Cons.prems(1) have f: "fresh_base st0 pr n ?st'" by (rule write_base_fresh)
  from load_write_base [OF Cons.prems(1) assms(1), of ?s'] assms(2) p
  have l: "load_base ?st' (n + 4) = Some ?s'" by simp
  from Cons.IH [OF f l p] Cons.prems(2) show ?case
    by (simp add: heap_base_run_def base_run_def heap_base_apply_def)
qed

lemma heap_base_copy_fresh:
  assumes "allocated st" "load_base st a = Some s" "heap_base_copy st a = Some (b, st1)"
  shows "\<exists>pr. b = next_addr st + 4 \<and> pr < next_addr st \<and>
     cells st pr = Some (ProblemCell (problem s)) \<and>
     fresh_base st pr (next_addr st) st1 \<and> load_base st1 b = Some s \<and>
     problem_ref st a = Some pr \<and> a < next_addr st"
proof -
  from load_base_SomeD [OF assms(2)] obtain pr cr dr pk np where
    c: "cells st a = Some (SolutionCell pr cr dr pk np (obj_value s))"
      "cells st pr = Some (ProblemCell (problem s))"
      "cells st cr = Some (ListCell (containers s))"
      "cells st dr = Some (ListCell (directions s))"
      "cells st pk = Some (SetCell (picked s))"
      "cells st np = Some (IterSetCell (not_picked s))"
    by blast
  with assms(1) have lt: "pr < next_addr st" "a < next_addr st" by (auto simp: allocated_def)
  from c(1) have pa: "problem_ref st a = Some pr" by (simp add: problem_ref_def)
  from c assms(3) have b: "b = next_addr st + 4"
    and st1: "st1 = st\<lparr>cells := (cells st)
                        (next_addr st \<mapsto> ListCell (containers s),
                         next_addr st + 1 \<mapsto> ListCell (directions s),
                         next_addr st + 2 \<mapsto> SetCell (picked s),
                         next_addr st + 3 \<mapsto> IterSetCell (not_picked s),
                         next_addr st + 4 \<mapsto>
                           SolutionCell pr (next_addr st) (next_addr st + 1)
                             (next_addr st + 2) (next_addr st + 3) (obj_value s)),
                      next_addr := next_addr st + 5\<rparr>"
    by (auto simp: heap_base_copy_def Let_def)
  have f: "fresh_base st pr (next_addr st) st1"
    by (auto simp: fresh_base_def st1)
  from lt c(2) have l: "load_base st1 b = Some s"
    by (intro load_base_SomeI [where pr = pr and cr = "next_addr st"
          and dr = "next_addr st + 1" and pk = "next_addr st + 2" and np = "next_addr st + 3"])
       (simp_all add: st1 b)
  from b lt c(2) f l pa show ?thesis by blast
qed

lemma base_copy_independent:
  assumes "allocated st" "load_base st a = Some s" "heap_base_copy st a = Some (b, st1)"
  shows "load_base st1 b = Some s \<and>
         load_base (heap_base_run st1 b ops) b = Some (base_run s ops) \<and>
         load_base (heap_base_run st1 b ops) a = Some s \<and>
         problem_ref (heap_base_run st1 b ops) b = problem_ref (heap_base_run st1 b ops) a \<and>
         problem_ref (heap_base_run st1 b ops) a \<noteq> None"
proof -
  from heap_base_copy_fresh [OF assms] obtain pr where
    b: "b = next_addr st + 4" and lt: "pr < next_addr st" and
    pc: "cells st pr = Some (ProblemCell (problem s))" and
    f: "fresh_base st pr (next_addr st) st1" and l: "load_base st1 b = Some s" and
    pa: "problem_ref st a = Some pr" and la: "a < next_addr st"
    by blast
  from heap_base_run_follows [OF lt pc f, of s ops] l
  have follows: "load_base (heap_base_run st1 b ops) b = Some (base_run s ops)"
    by (simp add: b)
  from heap_base_run_fresh [OF f, of ops]
  have fr: "fresh_base st pr (next_addr st) (heap_base_run st1 b ops)" by (simp add: b)
  then have same: "\<forall>x < next_addr st. cells (heap_base_run st1 b ops) x = cells st x"
    by (simp add: fresh_base_def)
  from load_base_cong [OF assms(1) refl assms(2) same]
  have orig: "load_base (heap_base_run st1 b ops) a = Some s" .
  from same la pa have p1: "problem_ref (heap_base_run st1 b ops) a = Some pr"
    by (simp add: problem_ref_def)
  from fr have p2: "problem_ref (heap_base_run st1 b ops) b = Some pr"
    by (auto simp: fresh_base_def problem_ref_def b)
  from l follows orig p1 p2 show ?thesis by simp
qed

lemma tsp_apply_frame: "tsp_problem (tsp_apply op s) = tsp_problem s \<and> start (tsp_apply op s) = start s"
proof (cases op)
  case (TspAdd c)
  then show ?thesis
    by (auto simp: tsp_apply_def tsp_add_def Let_def split: sum.splits)
next
  case (TspStep m)
  then show ?thesis using tsp_step_frame [of s m] by (simp add: tsp_apply_def)
qed

lemma load_tsp_SomeD:
  assumes "load_tsp st a = Some s"
  shows "\<exists>pr pa us un.
     cells st a = Some (TspSolutionCell pr (start s) pa us un (dist_acc s)) \<and>
     cells st pr = Some (TspProblemCell (tsp_problem s)) \<and>
     cells st pa = Some (ListCell (path s)) \<and>
     cells st us = Some (SetCell (used s)) \<and>
     cells st un = Some (IterSetCell (unused s))"
  using assms by (auto simp: load_tsp_def split: option.splits cell.splits)

lemma load_tsp_SomeI:
  assumes "cells st a = Some (TspSolutionCell pr (start s) pa us un (dist_acc s))"
    "cells st pr = Some (TspProblemCell (tsp_problem s))"
    "cells st pa = Some (ListCell (path s))"
    "cells st us = Some (SetCell (used s))"
    "cells st un = Some (IterSetCell (unused s))"
  shows "load_tsp st a = Some s"
  using assms by (simp add: load_tsp_def)

lemma load_tsp_cong:
  assumes "allocated st0" "next_addr st0 = n" "load_tsp st0 a = Some s"
    "\<forall>x < n. cells st x = cells st0 x"
  shows "load_tsp st a = Some s"
proof -
  from load_tsp_SomeD [OF assms(3)] obtain pr pa us un where
    c: "cells st0 a = Some (TspSolutionCell pr (start s) pa us un (dist_acc s))"
      "cells st0 pr = Some (TspProblemCell (tsp_problem s))"
      "cells st0 pa = Some (ListCell (path s))"
      "cells st0 us = Some (SetCell (used s))"
      "cells st0 un = Some (IterSetCell (unused s))"
    by blast
  with assms(1,2) have "a < n" "pr < n" "pa < n" "us < n" "un < n"
    by (auto simp: allocated_def)
  with assms(4) c have "cells st a = Some (TspSolutionCell pr (start s) pa us un (dist_acc s))"
      "cells st pr = Some (TspProblemCell (tsp_problem s))"
      "cells st pa = Some (ListCell (path s))"
      "cells st us = Some (SetCell (used s))"
      "cells st un = Some (IterSetCell (unused s))"
    by simp_all
  then show ?thesis by (rule load_tsp_SomeI)
qed

lemma write_tsp_fresh:
  assumes "fresh_tsp st0 pr s0 n st"
  shows "fresh_tsp st0 pr s0 n (write_tsp st (n + 3) s)"
  using assms by (auto simp: fresh_tsp_def write_tsp_def)

lemma heap_tsp_apply_fresh:
  "fresh_tsp st0 pr s0 n st \<Longrightarrow> fresh_tsp st0 pr s0 n (heap_tsp_apply (n + 3) op st)"
  by (simp add: heap_tsp_apply_def write_tsp_fresh split: option.splits)

lemma heap_tsp_run_fresh:
  "fresh_tsp st0 pr s0 n st \<Longrightarrow> fresh_tsp st0 pr s0 n (heap_tsp_run st (n + 3) ops)"
  unfolding heap_tsp_run_def
  by (induction ops arbitrary: st) (simp_all add: heap_tsp_apply_fresh)

lemma load_write_tsp:
  assumes "fresh_tsp st0 pr (start s) n st" "pr < n"
    "cells st0 pr = Some (TspProblemCell (tsp_problem s))"
  shows "load_tsp (write_tsp st (n + 3) s) (n + 3) = Some s"
proof -
  from assms(1) obtain d where
    o: "cells st (n + 3) = Some (TspSolutionCell pr (start s) n (n + 1) (n + 2) d)"
    and "cells st pr = cells st0 pr"
    using assms(2) by (auto simp: fresh_tsp_def)
  with assms(2,3) show ?thesis
    by (intro load_tsp_SomeI [where pr = pr and pa = n and us = "n + 1" and un = "n + 2"])
       (simp_all add: write_tsp_def)
qed

lemma heap_tsp_run_follows:
  assumes "pr < n" "cells st0 pr = Some (TspProblemCell p)"
  shows "fresh_tsp st0 pr s0 n st \<Longrightarrow> load_tsp st (n + 3) = Some s \<Longrightarrow>
     tsp_problem s = p \<Longrightarrow> start s = s0 \<Longrightarrow>
     load_tsp (heap_tsp_run st (n + 3) ops) (n + 3) = Some (tsp_run s ops)"
proof (induction ops arbitrary: st s)
  case Nil
  then show ?case by (simp add: heap_tsp_run_def tsp_run_def)
next
  case (Cons op ops)
  let ?s' = "tsp_apply op s"
  let ?st' = "write_tsp st (n + 3) ?s'"
  from Cons.prems(3,4) have p: "tsp_problem ?s' = p" "start ?s' = s0"
    by (simp_all add: tsp_apply_frame)
  from Cons.prems(1) have f: "fresh_tsp st0 pr s0 n ?st'" by (rule write_tsp_fresh)
  from Cons.prems(1) p(2) have "fresh_tsp st0 pr (start ?s') n st" by simp
  from load_write_tsp [OF this assms(1)] assms(2) p
  have l: "load_tsp ?st' (n + 3) = Some ?s'" by simp
  from Cons.IH [OF f l p] Cons.prems(2) show ?case
    by (simp add: heap_tsp_run_def tsp_run_def heap_tsp_apply_def)
qed

lemma heap_tsp_copy_fresh:
  assumes "allocated st" "load_tsp st a = Some s" "heap_tsp_copy st a = Some (b, st1)"
  shows "\<exists>pr. b = next_addr st + 3 \<and> pr < next_addr st \<and>
     cells st pr = Some (TspProblemCell (tsp_problem s)) \<and>
     fresh_tsp st pr (start s) (next_addr st) st1 \<and> load_tsp st1 b = Some s \<and>
     problem_ref st a = Some pr \<and> a < next_addr st"
proof -
  from load_tsp_SomeD [OF assms(2)] obtain pr pa us un where
    c: "cells st a = Some (TspSolutionCell pr (start s) pa us un (dist_acc s))"
      "cells st pr = Some (TspProblemCell (tsp_problem s))"
      "cells st pa = Some (ListCell (path s))"
      "cells st us = Some (SetCell (used s))"
      "cells st un = Some (IterSetCell (unused s))"
    by blast
  with assms(1) have lt: "pr < next_addr st" "a < next_addr st" by (auto simp: allocated_def)
  from c(1) have pa: "problem_ref st a = Some pr" by (simp add: problem_ref_def)
  from c assms(3) have b: "b = next_addr st + 3"
    and st1: "st1 = st\<lparr>cells := (cells st)
                        (next_addr st \<mapsto> ListCell (path s),
                         next_addr st + 1 \<mapsto> SetCell (used s),
                         next_addr st + 2 \<mapsto> IterSetCell (unused s),
                         next_addr st + 3 \<mapsto>
                           TspSolutionCell pr (start s) (next_addr st) (next_addr st + 1)
                             (next_addr st + 2) (dist_acc s)),
                      next_addr := next_addr st + 4\<rparr>"
    by (auto simp: heap_tsp_copy_def Let_def)
  have f: "fresh_tsp st pr (start s) (next_addr st) st1"
    by (auto simp: fresh_tsp_def st1)
  from lt c(2) have l: "load_tsp st1 b = Some s"
    by (intro load_tsp_SomeI [where pr = pr and pa = "next_addr st"
          and us = "next_addr st + 1" and un = "next_addr st + 2"])
       (simp_all add: st1 b)
  from b lt c(2) f l pa show ?thesis by blast
qed

lemma tsp_copy_independent:
  assumes "allocated st" "load_tsp st a = Some s" "heap_tsp_copy st a = Some (b, st1)"
  shows "load_tsp st1 b = Some s \<and>
         load_tsp (heap_tsp_run st1 b ops) b = Some (tsp_run s ops) \<and>
         load_tsp (heap_tsp_run st1 b ops) a = Some s \<and>
         problem_ref (heap_tsp_run st1 b ops) b = problem_ref (heap_tsp_run st1 b ops) a \<and>
         problem_ref (heap_tsp_run st1 b ops) a \<noteq> None"
proof -
  from heap_tsp_copy_fresh [OF assms] obtain pr where
    b: "b = next_addr st + 3" and lt: "pr < next_addr st" and
    pc: "cells st pr = Some (TspProblemCell (tsp_problem s))" and
    f: "fresh_tsp st pr (start s) (next_addr st) st1" and l: "load_tsp st1 b = Some s" and
    pa: "problem_ref st a = Some pr" and la: "a < next_addr st"
    by blast
  from heap_tsp_run_follows [OF lt pc f, of s ops] l
  have follows: "load_tsp (heap_tsp_run st1 b ops) b = Some (tsp_run s ops)"
    by (simp add: b)
  from heap_tsp_run_fresh [OF f, of ops]
  have fr: "fresh_tsp st pr (start s) (next_addr st) (heap_tsp_run st1 b ops)" by (simp add: b)
  then have same: "\<forall>x < next_addr st. cells (heap_tsp_run st1 b ops) x = cells st x"
    by (simp add: fresh_tsp_def)
  from load_tsp_cong [OF assms(1) refl assms(2) same]
  have orig: "load_tsp (heap_tsp_run st1 b ops) a = Some s" .
  from same la pa have p1: "problem_ref (heap_tsp_run st1 b ops) a = Some pr"
    by (simp add: problem_ref_def)
  from fr have p2: "problem_ref (heap_tsp_run st1 b ops) b = Some pr"
    by (auto simp: fresh_tsp_def problem_ref_def b)
  from l follows orig p1 p2 show ?thesis by simp
qed


lemma heap_base_copy_defined:
  "load_base st a = Some s \<Longrightarrow> \<exists>b st1. heap_base_copy st a = Some (b, st1)"
  by (drule load_base_SomeD) (auto simp: heap_base_copy_def Let_def)

lemma heap_tsp_copy_defined:
  "load_tsp st a = Some s \<Longrightarrow> \<exists>b st1. heap_tsp_copy st a = Some (b, st1)"
  by (drule load_tsp_SomeD) (auto simp: heap_tsp_copy_def Let_def)

text \<open>
  C10. In a store where a solution \<open>s\<close> lives at address \<open>a\<close> (of either
  variant), \<^verbatim>\<open>copy\<close> returns a new object that stands for the same solution, and
  after any sequence of \<^verbatim>\<open>add\<close> and \<^verbatim>\<open>step\<close> calls on the copy, returning or
  raising, the object at \<open>a\<close> still stands for \<open>s\<close>: sequence, orientation array,
  both sets and accumulated cost are what they were, while the copy has followed
  the calls. Both objects refer to the same problem throughout.
\<close>

theorem C10_copy_independent:
  assumes "allocated st"
  shows "(load_base st a = Some s \<longrightarrow>
           (\<exists>b st1. heap_base_copy st a = Some (b, st1) \<and> b \<noteq> a \<and>
              load_base st1 b = Some (base_copy s) \<and>
              (\<forall>ops. load_base (heap_base_run st1 b ops) b = Some (base_run s ops) \<and>
                     load_base (heap_base_run st1 b ops) a = Some s \<and>
                     problem_ref (heap_base_run st1 b ops) b
                       = problem_ref (heap_base_run st1 b ops) a \<and>
                     problem_ref (heap_base_run st1 b ops) a \<noteq> None))) \<and>
         (load_tsp st a' = Some t \<longrightarrow>
           (\<exists>b st1. heap_tsp_copy st a' = Some (b, st1) \<and> b \<noteq> a' \<and>
              load_tsp st1 b = Some (tsp_copy t) \<and>
              (\<forall>ops. load_tsp (heap_tsp_run st1 b ops) b = Some (tsp_run t ops) \<and>
                     load_tsp (heap_tsp_run st1 b ops) a' = Some t \<and>
                     problem_ref (heap_tsp_run st1 b ops) b
                       = problem_ref (heap_tsp_run st1 b ops) a' \<and>
                     problem_ref (heap_tsp_run st1 b ops) a' \<noteq> None)))"
proof (intro conjI impI)
  assume l: "load_base st a = Some s"
  from heap_base_copy_defined [OF l] obtain b st1 where c: "heap_base_copy st a = Some (b, st1)"
    by blast
  from heap_base_copy_fresh [OF assms l c] have "b \<noteq> a" by auto
  with base_copy_independent [OF assms l c] c
  show "\<exists>b st1. heap_base_copy st a = Some (b, st1) \<and> b \<noteq> a \<and>
              load_base st1 b = Some (base_copy s) \<and>
              (\<forall>ops. load_base (heap_base_run st1 b ops) b = Some (base_run s ops) \<and>
                     load_base (heap_base_run st1 b ops) a = Some s \<and>
                     problem_ref (heap_base_run st1 b ops) b
                       = problem_ref (heap_base_run st1 b ops) a \<and>
                     problem_ref (heap_base_run st1 b ops) a \<noteq> None)"
    by (simp add: base_copy_same)
next
  assume l: "load_tsp st a' = Some t"
  from heap_tsp_copy_defined [OF l] obtain b st1 where c: "heap_tsp_copy st a' = Some (b, st1)"
    by blast
  from heap_tsp_copy_fresh [OF assms l c] have "b \<noteq> a'" by auto
  with tsp_copy_independent [OF assms l c] c
  show "\<exists>b st1. heap_tsp_copy st a' = Some (b, st1) \<and> b \<noteq> a' \<and>
              load_tsp st1 b = Some (tsp_copy t) \<and>
              (\<forall>ops. load_tsp (heap_tsp_run st1 b ops) b = Some (tsp_run t ops) \<and>
                     load_tsp (heap_tsp_run st1 b ops) a' = Some t \<and>
                     problem_ref (heap_tsp_run st1 b ops) b
                       = problem_ref (heap_tsp_run st1 b ops) a' \<and>
                     problem_ref (heap_tsp_run st1 b ops) a' \<noteq> None)"
    by (simp add: tsp_copy_same)
qed

lemma demo_allocated: "allocated demo_store"
  by (auto simp: allocated_def demo_store_def split: if_splits)

lemma demo_load_base: "load_base demo_store 5 = Some routes3_first"
  by (simp add: load_base_def demo_store_def routes3_first_def)

lemma demo_load_tsp: "load_tsp demo_store 10 = Some square_first"
  by (simp add: load_tsp_def demo_store_def square_first_def)

lemma demo_base_run: "base_run routes3_first [Add (base_Component 1 0)] = routes3_second"
  by (simp add: base_run_def base_apply_def routes3_add2)

lemma demo_tsp_run:
  "tsp_run square_first [TspAdd (tsp_Component 1 2)]
     = \<lparr>tsp_problem = square, start = 0, path = [0, 1, 2], used = {0, 1, 2},
        unused = [3], dist_acc = 2\<rparr>"
  by (simp add: tsp_run_def tsp_apply_def tsp_add_def square_first_def square_dist_tab
      set_remove_def getitem2_def getitem_def py_index_def ebind_def insert_commute)

theorem C10_copy_independent_witness:
  "allocated demo_store \<and>
   load_base demo_store 5 = Some routes3_first \<and>
   (\<exists>b st1. heap_base_copy demo_store 5 = Some (b, st1) \<and> b \<noteq> 5 \<and>
      load_base st1 b = Some routes3_first \<and>
      load_base (heap_base_run st1 b [Add (base_Component 1 0)]) b = Some routes3_second \<and>
      load_base (heap_base_run st1 b [Add (base_Component 1 0)]) 5 = Some routes3_first) \<and>
   load_tsp demo_store 10 = Some square_first \<and>
   (\<exists>b st1. heap_tsp_copy demo_store 10 = Some (b, st1) \<and> b \<noteq> 10 \<and>
      load_tsp st1 b = Some square_first \<and>
      load_tsp (heap_tsp_run st1 b [TspAdd (tsp_Component 1 2)]) b
        = Some \<lparr>tsp_problem = square, start = 0, path = [0, 1, 2], used = {0, 1, 2},
                unused = [3], dist_acc = 2\<rparr> \<and>
      load_tsp (heap_tsp_run st1 b [TspAdd (tsp_Component 1 2)]) 10 = Some square_first)"
proof -
  note inst = C10_copy_independent [OF demo_allocated, of 5 routes3_first 10 square_first]
  from inst demo_load_base obtain b st1 where
    b: "heap_base_copy demo_store 5 = Some (b, st1)" "b \<noteq> 5"
       "load_base st1 b = Some (base_copy routes3_first)"
       "\<forall>ops. load_base (heap_base_run st1 b ops) b = Some (base_run routes3_first ops) \<and>
              load_base (heap_base_run st1 b ops) 5 = Some routes3_first \<and>
              problem_ref (heap_base_run st1 b ops) b
                = problem_ref (heap_base_run st1 b ops) 5 \<and>
              problem_ref (heap_base_run st1 b ops) 5 \<noteq> None"
    by blast
  from b(4) have b': "load_base (heap_base_run st1 b [Add (base_Component 1 0)]) b
      = Some routes3_second"
    "load_base (heap_base_run st1 b [Add (base_Component 1 0)]) 5 = Some routes3_first"
    by (simp_all add: demo_base_run)
  from inst demo_load_tsp obtain c st2 where
    c: "heap_tsp_copy demo_store 10 = Some (c, st2)" "c \<noteq> 10"
       "load_tsp st2 c = Some (tsp_copy square_first)"
       "\<forall>ops. load_tsp (heap_tsp_run st2 c ops) c = Some (tsp_run square_first ops) \<and>
              load_tsp (heap_tsp_run st2 c ops) 10 = Some square_first \<and>
              problem_ref (heap_tsp_run st2 c ops) c
                = problem_ref (heap_tsp_run st2 c ops) 10 \<and>
              problem_ref (heap_tsp_run st2 c ops) 10 \<noteq> None"
    by blast
  from c(4) have c': "load_tsp (heap_tsp_run st2 c [TspAdd (tsp_Component 1 2)]) c
        = Some \<lparr>tsp_problem = square, start = 0, path = [0, 1, 2], used = {0, 1, 2},
                unused = [3], dist_acc = 2\<rparr>"
    "load_tsp (heap_tsp_run st2 c [TspAdd (tsp_Component 1 2)]) 10 = Some square_first"
    by (simp_all add: demo_tsp_run)
  from b(1-3) b' have B: "\<exists>b st1. heap_base_copy demo_store 5 = Some (b, st1) \<and> b \<noteq> 5 \<and>
      load_base st1 b = Some routes3_first \<and>
      load_base (heap_base_run st1 b [Add (base_Component 1 0)]) b = Some routes3_second \<and>
      load_base (heap_base_run st1 b [Add (base_Component 1 0)]) 5 = Some routes3_first"
    by (auto simp: base_copy_same)
  from c(1-3) c' have C: "\<exists>b st1. heap_tsp_copy demo_store 10 = Some (b, st1) \<and> b \<noteq> 10 \<and>
      load_tsp st1 b = Some square_first \<and>
      load_tsp (heap_tsp_run st1 b [TspAdd (tsp_Component 1 2)]) b
        = Some \<lparr>tsp_problem = square, start = 0, path = [0, 1, 2], used = {0, 1, 2},
                unused = [3], dist_acc = 2\<rparr> \<and>
      load_tsp (heap_tsp_run st1 b [TspAdd (tsp_Component 1 2)]) 10 = Some square_first"
    by (auto simp: tsp_copy_same)
  from demo_allocated demo_load_base demo_load_tsp B C show ?thesis by (intro conjI)
qed

end
